theory Spec2Isabelle
  imports Main
begin

section \<open>The lock queue\<close>

text \<open>
  \<^verbatim>\<open>class LockQueue\<close> of \<^verbatim>\<open>abstract-resource-preference-provider.ts\<close>.
  The array \<^verbatim>\<open>queue\<close> holds the deferreds of the callers waiting in \<^verbatim>\<open>acquire\<close>; a deferred
  is represented by the handle \<open>'q\<close> of the caller that awaits it. The listeners that
  \<^verbatim>\<open>waitUntilFree\<close> registers on \<^verbatim>\<open>onFree\<close> are kept in \<open>onFree\<close>, with handles \<open>'f\<close>.
\<close>

record ('q, 'f) LockQueue =
  queue :: "'q list"
  busy :: bool
  onFree :: "'f list"

definition newLockQueue :: "('q, 'f) LockQueue" where
  "newLockQueue = \<lparr>queue = [], busy = False, onFree = []\<rparr>"

text \<open>
  \<^verbatim>\<open>acquire\<close>: the result says whether the returned promise is already resolved
  (\<^verbatim>\<open>Promise.resolve()\<close>) or is the promise of a deferred pushed on the queue.
\<close>

definition acquire :: "'q \<Rightarrow> ('q, 'f) LockQueue \<Rightarrow> bool \<times> ('q, 'f) LockQueue" where
  "acquire h L =
     (let wasBusy = busy L;
          L1 = L\<lparr>busy := True\<rparr>
      in if wasBusy then (False, L1\<lparr>queue := queue L1 @ [h]\<rparr>) else (True, L1))"

text \<open>
  \<^verbatim>\<open>release\<close>: the first component is the waiter whose deferred is resolved
  (\<^verbatim>\<open>next.resolve()\<close>), the second the listeners called by \<^verbatim>\<open>onFreeEmitter.fire()\<close>. Each
  listener disposes itself when called, so none stays registered after a fire.
\<close>

definition release :: "('q, 'f) LockQueue \<Rightarrow> 'q option \<times> 'f list \<times> ('q, 'f) LockQueue" where
  "release L =
     (case queue L of
        next # rest \<Rightarrow> (Some next, [], L\<lparr>queue := rest\<rparr>)
      | [] \<Rightarrow> (None, onFree L, L\<lparr>busy := False, onFree := []\<rparr>))"

text \<open>
  \<^verbatim>\<open>waitUntilFree\<close>: the result says whether the returned promise is already resolved;
  otherwise the caller is registered as a listener of \<^verbatim>\<open>onFree\<close>.
\<close>

definition waitUntilFree :: "'f \<Rightarrow> ('q, 'f) LockQueue \<Rightarrow> bool \<times> ('q, 'f) LockQueue" where
  "waitUntilFree h L =
     (if \<not> busy L then (True, L) else (False, L\<lparr>onFree := onFree L @ [h]\<rparr>))"

text \<open>Sequences of calls on one lock queue, for statements about every history of the lock.\<close>

datatype ('q, 'f) lock_call = Acquire 'q | Release | WaitUntilFree 'f

fun lock_step :: "('q, 'f) LockQueue \<Rightarrow> ('q, 'f) lock_call \<Rightarrow> ('q, 'f) LockQueue" where
  "lock_step L (Acquire h) = snd (acquire h L)"
| "lock_step L Release = snd (snd (release L))"
| "lock_step L (WaitUntilFree h) = snd (waitUntilFree h L)"

definition lock_after :: "('q, 'f) lock_call list \<Rightarrow> ('q, 'f) LockQueue" where
  "lock_after calls = foldl lock_step newLockQueue calls"

text \<open>The handles granted the lock by a history, in the order in which they were granted.\<close>

fun granted :: "('q, 'f) LockQueue \<Rightarrow> ('q, 'f) lock_call list \<Rightarrow> 'q list" where
  "granted L [] = []"
| "granted L (Acquire h # cs) =
     (if fst (acquire h L) then [h] else []) @ granted (snd (acquire h L)) cs"
| "granted L (Release # cs) =
     (case fst (release L) of Some h \<Rightarrow> [h] | None \<Rightarrow> []) @ granted (snd (snd (release L))) cs"
| "granted L (WaitUntilFree h # cs) = granted (snd (waitUntilFree h L)) cs"


section \<open>Collaborators of the provider\<close>

text \<open>
  The provider works on services that are injected or imported and whose code is not part
  of the file: the text model of the settings document, the structured-edit differ
  (\<^verbatim>\<open>jsoncparser.modify\<close>), the JSON parser, the preference schema, the URI paths.
  Whatever the provider only calls is a field of the record \<open>env\<close>; a preference value is
  a value of the type \<open>'v\<close>, and \<^verbatim>\<open>undefined\<close> is \<open>None\<close>.
\<close>

datatype PreferenceScope = Default | User | Workspace | Folder

text \<open>An edit returned by \<^verbatim>\<open>jsoncparser.modify\<close>.\<close>

record Edit =
  offset :: nat
  edit_length :: nat
  content :: string

text \<open>
  \<^verbatim>\<open>monaco.editor.IIdentifiedSingleEditOperation\<close>. A position of the text model is
  represented by its offset, so a range is a pair of offsets.
\<close>

record Operation =
  op_range :: "nat \<times> nat"
  op_text :: "string option"
  forceMoveMarkers :: bool

text \<open>\<^verbatim>\<open>MonacoEditorModel\<close>: the text of the document and its two flags.\<close>

record MonacoEditorModel =
  getText :: string
  dirty :: bool
  valid :: bool

record 'v PreferenceProviderDataChange =
  preferenceName :: string
  newValue :: "'v option"
  oldValue :: "'v option"
  scope :: PreferenceScope
  domain :: "string list option"

record 'v env =
  getUri :: string
  getScope :: PreferenceScope
  getDomain :: "string list option"
  pathFor :: "string \<Rightarrow> string list option"
  relativity :: "string \<Rightarrow> string \<Rightarrow> int"
  modify :: "string \<Rightarrow> string list \<Rightarrow> 'v option \<Rightarrow> Edit list option"
  editRejected :: "string \<Rightarrow> Operation list \<Rightarrow> bool"
  jsoncParse :: "string \<Rightarrow> 'v option"
  isObject :: "'v \<Rightarrow> bool"
  forIn :: "'v \<Rightarrow> (string \<times> 'v) list"
  deepEqual :: "'v \<Rightarrow> 'v \<Rightarrow> bool"
  testOverrideValue :: "string \<Rightarrow> 'v \<Rightarrow> bool"
  hasSchemaProperties :: "string \<Rightarrow> bool"
  isValidInScope :: "string \<Rightarrow> PreferenceScope \<Rightarrow> bool"

text \<open>
  The fields of \<open>env\<close>:
  \<^item> \<open>getUri\<close>, \<open>getScope\<close>, \<open>getDomain\<close>: the abstract methods of the provider;
  \<^item> \<open>pathFor\<close>: the protected method \<^verbatim>\<open>getPath\<close>, which a subclass may override
    (\<open>None\<close> is \<^verbatim>\<open>undefined\<close>);
  \<^item> \<open>relativity a b\<close>: \<^verbatim>\<open>new URI(a).path.relativity(new URI(b).path)\<close>;
  \<^item> \<open>modify\<close>: \<^verbatim>\<open>jsoncparser.modify\<close> with the formatting options of the text model;
    \<open>None\<close> when it throws;
  \<^item> \<open>editRejected\<close>: whether \<^verbatim>\<open>workspace.applyBackgroundEdit\<close> throws for these operations;
  \<^item> \<open>jsoncParse\<close>: \<^verbatim>\<open>jsoncparser.parse(jsoncparser.stripComments(content))\<close>;
  \<^item> \<open>isObject v\<close>: \<^verbatim>\<open>typeof v === 'object'\<close>; \<open>forIn v\<close>: the properties a \<^verbatim>\<open>for ... in\<close>
    loop over \<open>v\<close> visits, with their values;
  \<^item> \<open>deepEqual\<close>: \<^verbatim>\<open>JSONExt.deepEqual\<close>;
  \<^item> \<open>testOverrideValue\<close>, \<open>hasSchemaProperties\<close>, \<open>isValidInScope\<close>: the schema provider
    (\<open>hasSchemaProperties n\<close>: \<^verbatim>\<open>getCombinedSchema().properties[n]\<close> is defined).
\<close>

text \<open>\<^verbatim>\<open>getPath\<close> as the abstract provider defines it.\<close>

definition getPath :: "string \<Rightarrow> string list option" where
  "getPath name = Some [name]"

subsection \<open>Strings and objects\<close>

text \<open>
  A text is the list of its code units, and a character of the type \<open>char\<close> is a code unit
  below 256. \<^verbatim>\<open>String.prototype.trim\<close> strips the white space and the line terminators of
  ECMAScript from both ends. Those below 256 are the tab, the line feed, the vertical tab, the
  form feed, the carriage return, the space and the no-break space U+00A0; the others (U+1680,
  U+2000 to U+200A, U+2028, U+2029, U+202F, U+205F, U+3000 and U+FEFF) are no characters of
  the type.
\<close>

definition is_space :: "char \<Rightarrow> bool" where
  "is_space c = (c \<in> set [CHR 0x09, CHR 0x0A, CHR 0x0B, CHR 0x0C, CHR 0x0D, CHR 0x20, CHR 0xA0])"

definition trim :: "string \<Rightarrow> string" where
  "trim s = rev (dropWhile is_space (rev (dropWhile is_space s)))"

text \<open>
  A JavaScript object with string keys is the list of its properties in insertion order;
  \<open>obj_get\<close> reads a property (\<open>None\<close> is \<^verbatim>\<open>undefined\<close>), \<open>obj_set\<close> assigns one.
\<close>

definition obj_get :: "(string \<times> 'v) list \<Rightarrow> string \<Rightarrow> 'v option" where
  "obj_get obj k = map_of obj k"

fun obj_set :: "(string \<times> 'v) list \<Rightarrow> string \<Rightarrow> 'v \<Rightarrow> (string \<times> 'v) list" where
  "obj_set [] k v = [(k, v)]"
| "obj_set (p # ps) k v = (if fst p = k then (k, v) # ps else p # obj_set ps k v)"

text \<open>The elements of \<^verbatim>\<open>new Set(xs)\<close> in iteration order: first occurrences.\<close>

fun set_values :: "'a list \<Rightarrow> 'a list" where
  "set_values [] = []"
| "set_values (x # xs) = x # filter (\<lambda>y. y \<noteq> x) (set_values xs)"


section \<open>The provider\<close>

text \<open>\<^verbatim>\<open>interface EnqueuedPreferenceChange\<close>; the deferred \<^verbatim>\<open>editResolver\<close> is named by a number.\<close>

record 'v EnqueuedPreferenceChange =
  key :: string
  val :: "'v option"
  editResolver :: nat

text \<open>
  What the promise returned by one call of \<^verbatim>\<open>setPreference\<close> has become:
  \<^item> \<open>Running\<close>: the call has not come to an end yet and has no \<^verbatim>\<open>editResolver\<close>;
  \<^item> \<open>Threw\<close>: the call threw (the promise is rejected);
  \<^item> \<open>ReturnedFalse\<close>: the call ended with \<^verbatim>\<open>return false\<close>;
  \<^item> \<open>Unresolved\<close>: the call returned \<^verbatim>\<open>editResolver.promise\<close>, not resolved yet;
  \<^item> \<open>ResolvedFalse\<close>: \<^verbatim>\<open>editResolver.resolve(false)\<close>;
  \<^item> \<open>ResolvedWith t\<close>: \<^verbatim>\<open>editResolver.resolve(localPendingChanges.promise)\<close>, with the
    deferred \<^verbatim>\<open>localPendingChanges\<close> of the run \<open>t\<close> of \<^verbatim>\<open>doSetPreferences\<close>.
\<close>

datatype Resolution = Running | Threw | ReturnedFalse | Unresolved | ResolvedFalse | ResolvedWith nat

text \<open>Who waits for a call of \<^verbatim>\<open>model.save()\<close> to settle.\<close>

datatype Saver = SaveOfTransaction nat | SaveOfDirtyEditor

text \<open>
  The state of an \<^verbatim>\<open>AbstractResourcePreferenceProvider\<close> whose \<^verbatim>\<open>init\<close> has come to an end.
  The first fields are the fields of the class:
  \<^item> \<open>loadingRejected\<close>: the deferred \<^verbatim>\<open>loading\<close> was rejected (the provider was disposed
    before the model was there); otherwise it is resolved;
  \<^item> \<open>dirtyEditorHandled\<close>: the number of the deferred the field holds at present, and
    \<open>gateResolves\<close>: how often \<^verbatim>\<open>resolve\<close> was called on that deferred (\<^verbatim>\<open>init\<close> calls it once);
  \<^item> \<open>fileEditLock\<close>: the waiters in \<^verbatim>\<open>acquire\<close> are runs of \<^verbatim>\<open>doSetPreferences\<close>, the
    listeners of \<^verbatim>\<open>onFree\<close> are calls of \<^verbatim>\<open>setPreference\<close> with their arguments.
  The others are the promises and suspended calls of the provider, and what its
  collaborators were asked to do:
  \<^item> \<open>results c\<close>: the promise of the call \<open>c\<close> of \<^verbatim>\<open>setPreference\<close>;
  \<^item> \<open>localPendingChanges t\<close>: the value of that deferred of the run \<open>t\<close>, once resolved;
  \<^item> \<open>gateWaiters\<close>: runs of \<^verbatim>\<open>doSetPreferences\<close> awaiting a deferred \<^verbatim>\<open>dirtyEditorHandled\<close>;
  \<^item> \<open>pendingPrompts\<close>: calls of \<^verbatim>\<open>handleDirtyEditor\<close> awaiting the user's answer;
  \<^item> \<open>pendingSaves\<close>: calls of \<^verbatim>\<open>model.save()\<close> that have not settled;
  \<^item> \<open>disk\<close>: the text last saved; \<open>saveCalls\<close>: the calls of \<^verbatim>\<open>model.save()\<close> so far;
  \<^item> \<open>promptsShown\<close>: how often the dirty-editor prompt was shown;
  \<^item> \<open>errorMessages\<close>, \<open>consoleErrors\<close>: the error notifications of \<^verbatim>\<open>doSetPreference\<close>
    and the number of its \<^verbatim>\<open>console.error\<close> calls;
  \<^item> \<open>openedFiles\<close>: the calls of \<^verbatim>\<open>editorManager.open\<close>;
  \<^item> \<open>emitted\<close>: the arguments of the calls of \<^verbatim>\<open>emitPreferencesChangedEvent\<close>.
\<close>

record 'v Provider =
  preferences :: "(string \<times> 'v) list"
  model :: "MonacoEditorModel option"
  editQueue :: "'v EnqueuedPreferenceChange list"
  loadingRejected :: bool
  dirtyEditorHandled :: nat
  gateResolves :: nat
  fileEditLock :: "(nat, nat \<times> string \<times> 'v option) LockQueue"
  results :: "nat \<Rightarrow> Resolution"
  nextCall :: nat
  localPendingChanges :: "nat \<Rightarrow> bool option"
  nextTransaction :: nat
  gateWaiters :: "(nat \<times> nat) list"
  pendingPrompts :: nat
  pendingSaves :: "Saver list"
  disk :: string
  saveCalls :: nat
  promptsShown :: nat
  errorMessages :: "string list"
  consoleErrors :: nat
  openedFiles :: nat
  emitted :: "'v PreferenceProviderDataChange list list"

subsection \<open>Reading the preferences\<close>

text \<open>The getter \<^verbatim>\<open>valid\<close> of the provider.\<close>

definition provider_valid :: "'v Provider \<Rightarrow> bool" where
  "provider_valid s = (case model s of None \<Rightarrow> False | Some m \<Rightarrow> valid m)"

definition contains :: "'v env \<Rightarrow> string option \<Rightarrow> bool" where
  "contains env resourceUri =
     (case resourceUri of
        None \<Rightarrow> True
      | Some u \<Rightarrow>
          if u = [] then True
          else (case getDomain env of
                  None \<Rightarrow> True
                | Some d \<Rightarrow> list_ex (\<lambda>uri. 0 \<le> relativity env uri u) d))"

definition getPreferences :: "'v env \<Rightarrow> string option \<Rightarrow> 'v Provider \<Rightarrow> (string \<times> 'v) list" where
  "getPreferences env resourceUri s =
     (if provider_valid s \<and> contains env resourceUri then preferences s else [])"

definition parse :: "'v env \<Rightarrow> string \<Rightarrow> 'v option" where
  "parse env text0 = (let c = trim text0 in if c = [] then None else jsoncParse env c)"

definition getParsedContent :: "'v env \<Rightarrow> string \<Rightarrow> (string \<times> 'v) list" where
  "getParsedContent env text0 =
     (case parse env text0 of
        None \<Rightarrow> []
      | Some jsonData \<Rightarrow>
          if \<not> isObject env jsonData then []
          else fold (\<lambda>(name, v) prefs.
                  if testOverrideValue env name v
                  then fold (\<lambda>(overridden, ov) prefs'. obj_set prefs' (name @ ''.'' @ overridden) ov)
                         (forIn env v) prefs
                  else obj_set prefs name v)
                (forIn env jsonData) [])"

text \<open>
  The condition under which \<^verbatim>\<open>handlePreferenceChanges\<close> records a change of one name;
  \<^verbatim>\<open>JSONExt.deepEqual\<close> is reached only with two defined values.
\<close>

definition value_changed :: "'v env \<Rightarrow> 'v option \<Rightarrow> 'v option \<Rightarrow> bool" where
  "value_changed env old new =
     ((new = None \<and> old \<noteq> new) \<or> (old = None \<and> new \<noteq> old) \<or>
      (case (old, new) of (Some a, Some b) \<Rightarrow> \<not> deepEqual env a b | _ \<Rightarrow> False))"

definition emitPreferencesChangedEvent ::
    "'v PreferenceProviderDataChange list \<Rightarrow> 'v Provider \<Rightarrow> 'v Provider" where
  "emitPreferencesChangedEvent changes s = s\<lparr>emitted := emitted s @ [changes]\<rparr>"

text \<open>The changes \<^verbatim>\<open>handlePreferenceChanges\<close> collects in \<^verbatim>\<open>prefChanges\<close>.\<close>

definition prefChanges ::
    "'v env \<Rightarrow> (string \<times> 'v) list \<Rightarrow> (string \<times> 'v) list \<Rightarrow> 'v PreferenceProviderDataChange list" where
  "prefChanges env oldPrefs newPrefs =
     concat (map (\<lambda>prefName.
         let old = obj_get oldPrefs prefName;
             new = obj_get newPrefs prefName
         in if hasSchemaProperties env prefName \<and> \<not> isValidInScope env prefName (getScope env)
            then []
            else if value_changed env old new
            then [\<lparr>preferenceName = prefName, newValue = new, oldValue = old,
                   scope = getScope env, domain = getDomain env\<rparr>]
            else [])
       (set_values (map fst oldPrefs @ map fst newPrefs)))"

definition handlePreferenceChanges :: "'v env \<Rightarrow> (string \<times> 'v) list \<Rightarrow> 'v Provider \<Rightarrow> 'v Provider" where
  "handlePreferenceChanges env newPrefs s =
     (let oldPrefs = preferences s;
          s1 = s\<lparr>preferences := newPrefs\<rparr>;
          changes = prefChanges env oldPrefs newPrefs
      in if changes \<noteq> [] then emitPreferencesChangedEvent changes s1 else s1)"

definition readPreferences :: "'v env \<Rightarrow> 'v Provider \<Rightarrow> 'v Provider" where
  "readPreferences env s =
     (case model s of
        None \<Rightarrow> s
      | Some m \<Rightarrow>
          if dirty m then s
          else handlePreferenceChanges env
                 (if valid m then getParsedContent env (getText m) else []) s)"

text \<open>The changes \<^verbatim>\<open>reset\<close> collects for the preferences it drops.\<close>

definition removals :: "'v env \<Rightarrow> (string \<times> 'v) list \<Rightarrow> 'v PreferenceProviderDataChange list" where
  "removals env prefs =
     concat (map (\<lambda>prefName.
         case obj_get prefs prefName of
           None \<Rightarrow> []
         | Some v \<Rightarrow> [\<lparr>preferenceName = prefName, newValue = None, oldValue = Some v,
                      scope = getScope env, domain = getDomain env\<rparr>])
       (map fst prefs))"

definition reset :: "'v env \<Rightarrow> 'v Provider \<Rightarrow> 'v Provider" where
  "reset env s =
     (let prefs = preferences s;
          s1 = s\<lparr>preferences := []\<rparr>;
          changes = removals env prefs
      in if changes \<noteq> [] then emitPreferencesChangedEvent changes s1 else s1)"

subsection \<open>Applying one preference change to the document\<close>

definition toOperation :: "Edit \<Rightarrow> Operation" where
  "toOperation e =
     \<lparr>op_range = (offset e, offset e + edit_length e),
      op_text = (if content e = [] then None else Some (content e)),
      forceMoveMarkers = False\<rparr>"

text \<open>\<^verbatim>\<open>textModel.getFullModelRange()\<close>.\<close>

definition getFullModelRange :: "MonacoEditorModel \<Rightarrow> nat \<times> nat" where
  "getFullModelRange m = (0, length (getText m))"

text \<open>
  The operations \<^verbatim>\<open>doSetPreference\<close> collects in \<^verbatim>\<open>editOperations\<close>; \<open>None\<close> when
  \<^verbatim>\<open>jsoncparser.modify\<close> throws.
\<close>

definition editOperations ::
    "'v env \<Rightarrow> MonacoEditorModel \<Rightarrow> string \<Rightarrow> string list \<Rightarrow> 'v option \<Rightarrow> Operation list option" where
  "editOperations env m trimmed path v =
     (if path \<noteq> [] \<or> v \<noteq> None
      then map_option (map toOperation) (modify env trimmed path v)
      else Some [\<lparr>op_range = getFullModelRange m, op_text = None, forceMoveMarkers = False\<rparr>])"

text \<open>
  Modelled from the spec: \<^verbatim>\<open>MonacoWorkspace.applyBackgroundEdit(model, operations, false)\<close>,
  whose code is not in the file. It applies the operations as one atomic multi-range edit:
  every range is a range of the text before the edit and the operations come in increasing
  order of their offsets, so they are carried out from the last to the first. A model that
  was changed is dirty. The edit is pushed before the call returns, and the promise of the
  call settles without waiting for anything outside the provider. \<open>None\<close> when the call
  throws.
\<close>

definition applyOperation :: "Operation \<Rightarrow> string \<Rightarrow> string" where
  "applyOperation operation text0 =
     take (fst (op_range operation)) text0
       @ (case op_text operation of None \<Rightarrow> [] | Some t \<Rightarrow> t)
       @ drop (snd (op_range operation)) text0"

definition applyBackgroundEdit ::
    "'v env \<Rightarrow> MonacoEditorModel \<Rightarrow> Operation list \<Rightarrow> MonacoEditorModel option" where
  "applyBackgroundEdit env m operations =
     (if editRejected env (getText m) operations then None
      else if operations = [] then Some m
      else Some (m\<lparr>getText := foldr applyOperation operations (getText m), dirty := True\<rparr>))"

text \<open>
  The model fires \<^verbatim>\<open>onDidChangeContent\<close> and \<^verbatim>\<open>onDirtyChanged\<close> when an edit changed it;
  \<^verbatim>\<open>init\<close> has subscribed \<^verbatim>\<open>readPreferences\<close> to both.
\<close>

definition modelEdited :: "'v env \<Rightarrow> MonacoEditorModel \<Rightarrow> MonacoEditorModel \<Rightarrow> 'v Provider \<Rightarrow> 'v Provider" where
  "modelEdited env m m' s =
     (if m' = m then s
      else let s1 = readPreferences env (s\<lparr>model := Some m'\<rparr>)
           in if dirty m' \<noteq> dirty m then readPreferences env s1 else s1)"

text \<open>The \<^verbatim>\<open>catch\<close> block of \<^verbatim>\<open>doSetPreference\<close>.\<close>

definition failedMessage :: "'v env \<Rightarrow> string \<Rightarrow> string" where
  "failedMessage env k =
     ''Failed to update the value of '' @ [CHR 0x27] @ k @ [CHR 0x27] @ '' in ''
       @ [CHR 0x27] @ getUri env @ [CHR 0x27] @ ''.''"

definition failedToUpdate :: "'v env \<Rightarrow> string \<Rightarrow> 'v Provider \<Rightarrow> 'v Provider" where
  "failedToUpdate env k s =
     s\<lparr>errorMessages := errorMessages s @ [failedMessage env k @ '' Please check if it is corrupted.''],
       consoleErrors := consoleErrors s + 1\<rparr>"

text \<open>
  \<^verbatim>\<open>doSetPreference\<close>, from its call to the value of its promise: nothing outside the
  provider is awaited in between.
\<close>

definition doSetPreference :: "'v env \<Rightarrow> string \<Rightarrow> 'v option \<Rightarrow> 'v Provider \<Rightarrow> bool \<times> 'v Provider" where
  "doSetPreference env k v s =
     (case model s of
        None \<Rightarrow> (False, s)
      | Some m \<Rightarrow>
          (case pathFor env k of
             None \<Rightarrow> (False, s)
           | Some path \<Rightarrow>
               let trimmed = trim (getText m) in
               if trimmed = [] \<and> v = None then (True, s)
               else
                 (case editOperations env m trimmed path v of
                    None \<Rightarrow> (False, failedToUpdate env k s)
                  | Some operations \<Rightarrow>
                      (case applyBackgroundEdit env m operations of
                         None \<Rightarrow> (False, failedToUpdate env k s)
                       | Some m' \<Rightarrow> (True, modelEdited env m m' s)))))"

subsection \<open>The suspended calls\<close>

text \<open>
  The provider runs on one thread. A call of an \<^verbatim>\<open>async\<close> method runs until its first
  \<^verbatim>\<open>await\<close>; what follows the \<^verbatim>\<open>await\<close> is a task, queued when the awaited promise is
  settled and run after the tasks queued before it. A task names the \<^verbatim>\<open>await\<close> it continues:
  \<^item> \<open>SetPreference_loaded\<close>: \<^verbatim>\<open>await this.loading.promise\<close> in \<^verbatim>\<open>setPreference\<close>;
  \<^item> \<open>SetPreference_free\<close>: \<^verbatim>\<open>await this.fileEditLock.waitUntilFree()\<close>;
  \<^item> \<open>DoSetPreferences_handled\<close>: \<^verbatim>\<open>await this.dirtyEditorHandled.promise\<close>;
  \<^item> \<open>DoSetPreferences_edited t r ok\<close>: \<^verbatim>\<open>await this.doSetPreference(key, value)\<close> for the
    change of resolver \<open>r\<close>, with the value \<open>ok\<close> of that promise;
  \<^item> \<open>DoSetPreferences_acquired\<close>: \<^verbatim>\<open>await this.fileEditLock.acquire()\<close>;
  \<^item> \<open>DoSetPreferences_saved t r\<close>: \<^verbatim>\<open>await this.model.save()\<close> and
    \<^verbatim>\<open>await this.pendingChanges\<close>; \<open>r\<close> is \<open>None\<close> when one of them threw and the value of
    \<^verbatim>\<open>pendingChanges\<close> otherwise;
  \<^item> \<open>HandleDirtyEditor_answered\<close>: \<^verbatim>\<open>await this.messageService.error(...)\<close> in
    \<^verbatim>\<open>handleDirtyEditor\<close>, with the action chosen (\<open>None\<close>: the prompt was dismissed);
  \<^item> \<open>HandleDirtyEditor_saved\<close>: \<^verbatim>\<open>await this.model.save()\<close> in \<^verbatim>\<open>handleDirtyEditor\<close>.
\<close>

datatype 'v task =
    SetPreference_loaded nat string "'v option" "string option"
  | SetPreference_free nat string "'v option"
  | DoSetPreferences_handled nat
  | DoSetPreferences_edited nat nat bool
  | DoSetPreferences_acquired nat
  | DoSetPreferences_saved nat "bool option"
  | HandleDirtyEditor_answered "string option"
  | HandleDirtyEditor_saved

text \<open>Settling promises. A deferred that is resolved stays as it is.\<close>

definition resolveEdit :: "nat \<Rightarrow> Resolution \<Rightarrow> 'v Provider \<Rightarrow> 'v Provider" where
  "resolveEdit r v s = (if results s r = Unresolved then s\<lparr>results := (results s)(r := v)\<rparr> else s)"

definition resolveDirtyEditorHandled :: "'v Provider \<Rightarrow> 'v task list \<times> 'v Provider" where
  "resolveDirtyEditorHandled s =
     (if gateResolves s = 0
      then (map (\<lambda>w. DoSetPreferences_handled (snd w))
              (filter (\<lambda>w. fst w = dirtyEditorHandled s) (gateWaiters s)),
            s\<lparr>gateResolves := 1,
              gateWaiters := filter (\<lambda>w. fst w \<noteq> dirtyEditorHandled s) (gateWaiters s)\<rparr>)
      else ([], s\<lparr>gateResolves := gateResolves s + 1\<rparr>))"

text \<open>\<^verbatim>\<open>model.save()\<close> is called: the call is counted and its promise is pending.\<close>

definition callSave :: "Saver \<Rightarrow> 'v Provider \<Rightarrow> 'v Provider" where
  "callSave who s = s\<lparr>saveCalls := saveCalls s + 1, pendingSaves := pendingSaves s @ [who]\<rparr>"

subsection \<open>\<^verbatim>\<open>handleDirtyEditor\<close>\<close>

definition handleDirtyEditor :: "'v Provider \<Rightarrow> 'v Provider" where
  "handleDirtyEditor s = s\<lparr>promptsShown := promptsShown s + 1, pendingPrompts := pendingPrompts s + 1\<rparr>"

text \<open>The end of \<^verbatim>\<open>handleDirtyEditor\<close>, from \<^verbatim>\<open>if (msg !== 'Save and Retry')\<close> on.\<close>

definition handleDirtyEditor_end :: "string option \<Rightarrow> 'v Provider \<Rightarrow> 'v task list \<times> 'v Provider" where
  "handleDirtyEditor_end msg s =
     (let s1 = (if msg \<noteq> Some ''Save and Retry''
                then (fold (\<lambda>e. resolveEdit (editResolver e) ResolvedFalse) (editQueue s) s)\<lparr>editQueue := []\<rparr>
                else s)
      in resolveDirtyEditorHandled s1)"

definition handleDirtyEditor_answered :: "string option \<Rightarrow> 'v Provider \<Rightarrow> 'v task list \<times> 'v Provider" where
  "handleDirtyEditor_answered msg s =
     (case model s of
        None \<Rightarrow> handleDirtyEditor_end msg s
      | Some m \<Rightarrow>
          if msg = Some ''Open File'' then handleDirtyEditor_end msg (s\<lparr>openedFiles := openedFiles s + 1\<rparr>)
          else if msg = Some ''Save and Retry'' then ([], callSave SaveOfDirtyEditor s)
          else handleDirtyEditor_end msg s)"

subsection \<open>\<^verbatim>\<open>doSetPreferences\<close>\<close>

text \<open>The call of \<^verbatim>\<open>doSetPreferences\<close> up to \<^verbatim>\<open>await this.dirtyEditorHandled.promise\<close>.\<close>

definition doSetPreferences :: "'v Provider \<Rightarrow> 'v task list \<times> 'v Provider" where
  "doSetPreferences s =
     (let t = nextTransaction s;
          s1 = s\<lparr>nextTransaction := t + 1, localPendingChanges := (localPendingChanges s)(t := None)\<rparr>
      in if 0 < gateResolves s1 then ([DoSetPreferences_handled t], s1)
         else ([], s1\<lparr>gateWaiters := gateWaiters s1 @ [(dirtyEditorHandled s1, t)]\<rparr>))"

text \<open>
  The head of the \<^verbatim>\<open>while\<close> loop: with an empty queue the run goes on to
  \<^verbatim>\<open>await this.fileEditLock.acquire()\<close>, otherwise it shifts the queue and calls
  \<^verbatim>\<open>doSetPreference\<close>.
\<close>

definition doSetPreferences_loop :: "'v env \<Rightarrow> nat \<Rightarrow> 'v Provider \<Rightarrow> 'v task list \<times> 'v Provider" where
  "doSetPreferences_loop env t s =
     (case editQueue s of
        [] \<Rightarrow>
          (case acquire t (fileEditLock s) of
             (now, L) \<Rightarrow> (if now then [DoSetPreferences_acquired t] else [], s\<lparr>fileEditLock := L\<rparr>))
      | e # rest \<Rightarrow>
          (case doSetPreference env (key e) (val e) (s\<lparr>editQueue := rest\<rparr>) of
             (ok, s1) \<Rightarrow> ([DoSetPreferences_edited t (editResolver e) ok], s1)))"

text \<open>
  The end of \<^verbatim>\<open>doSetPreferences\<close>: \<^verbatim>\<open>this.fileEditLock.release()\<close> and
  \<^verbatim>\<open>localPendingChanges.resolve(success)\<close>.
\<close>

definition doSetPreferences_end :: "nat \<Rightarrow> bool \<Rightarrow> 'v Provider \<Rightarrow> 'v task list \<times> 'v Provider" where
  "doSetPreferences_end t success s =
     (case release (fileEditLock s) of
        (next, listeners, L) \<Rightarrow>
          ((case next of None \<Rightarrow> [] | Some t' \<Rightarrow> [DoSetPreferences_acquired t'])
             @ map (\<lambda>(c, k, v). SetPreference_free c k v) listeners,
           s\<lparr>fileEditLock := L, localPendingChanges := (localPendingChanges s)(t := Some success)\<rparr>))"

definition doSetPreferences_acquired :: "nat \<Rightarrow> 'v Provider \<Rightarrow> 'v task list \<times> 'v Provider" where
  "doSetPreferences_acquired t s =
     (case model s of
        None \<Rightarrow> doSetPreferences_end t True s
      | Some m \<Rightarrow>
          if dirty m then ([], callSave (SaveOfTransaction t) s)
          else doSetPreferences_end t True s)"

subsection \<open>\<^verbatim>\<open>setPreference\<close>\<close>

text \<open>The call of \<^verbatim>\<open>setPreference\<close> up to \<^verbatim>\<open>await this.loading.promise\<close>.\<close>

definition setPreference ::
    "string \<Rightarrow> 'v option \<Rightarrow> string option \<Rightarrow> 'v Provider \<Rightarrow> 'v task list \<times> 'v Provider" where
  "setPreference k v resourceUri s =
     (let c = nextCall s
      in ([SetPreference_loaded c k v resourceUri],
          s\<lparr>nextCall := c + 1, results := (results s)(c := Running)\<rparr>))"

definition setPreference_loaded ::
    "'v env \<Rightarrow> nat \<Rightarrow> string \<Rightarrow> 'v option \<Rightarrow> string option \<Rightarrow> 'v Provider \<Rightarrow> 'v task list \<times> 'v Provider" where
  "setPreference_loaded env c k v resourceUri s =
     (if loadingRejected s then ([], s\<lparr>results := (results s)(c := Threw)\<rparr>)
      else if model s = None then ([], s\<lparr>results := (results s)(c := ReturnedFalse)\<rparr>)
      else if \<not> contains env resourceUri then ([], s\<lparr>results := (results s)(c := ReturnedFalse)\<rparr>)
      else (case waitUntilFree (c, k, v) (fileEditLock s) of
              (now, L) \<Rightarrow> (if now then [SetPreference_free c k v] else [], s\<lparr>fileEditLock := L\<rparr>)))"

text \<open>
  \<^verbatim>\<open>setPreference\<close> after \<^verbatim>\<open>waitUntilFree\<close>. Reading \<^verbatim>\<open>this.model.dirty\<close> throws when there
  is no model any more; it is read only for the first edit in the queue.
\<close>

definition setPreference_free ::
    "nat \<Rightarrow> string \<Rightarrow> 'v option \<Rightarrow> 'v Provider \<Rightarrow> 'v task list \<times> 'v Provider" where
  "setPreference_free c k v s =
     (let isFirstEditInQueue = (editQueue s = [])
      in case (if isFirstEditInQueue then map_option dirty (model s) else Some False) of
           None \<Rightarrow> ([], s\<lparr>results := (results s)(c := Threw)\<rparr>)
         | Some mustHandleDirty \<Rightarrow>
             let s1 = s\<lparr>editQueue := editQueue s @ [\<lparr>key = k, val = v, editResolver = c\<rparr>],
                        results := (results s)(c := Unresolved)\<rparr>;
                 s2 = (if mustHandleDirty
                       then handleDirtyEditor
                              (s1\<lparr>dirtyEditorHandled := dirtyEditorHandled s1 + 1, gateResolves := 0\<rparr>)
                       else s1)
             in if isFirstEditInQueue then doSetPreferences s2 else ([], s2))"

subsection \<open>Running the tasks\<close>

fun exec :: "'v env \<Rightarrow> 'v task \<Rightarrow> 'v Provider \<Rightarrow> 'v task list \<times> 'v Provider" where
  "exec env (SetPreference_loaded c k v resourceUri) s = setPreference_loaded env c k v resourceUri s"
| "exec env (SetPreference_free c k v) s = setPreference_free c k v s"
| "exec env (DoSetPreferences_handled t) s = doSetPreferences_loop env t s"
| "exec env (DoSetPreferences_edited t r ok) s =
     doSetPreferences_loop env t (resolveEdit r (if ok then ResolvedWith t else ResolvedFalse) s)"
| "exec env (DoSetPreferences_acquired t) s = doSetPreferences_acquired t s"
| "exec env (DoSetPreferences_saved t r) s =
     doSetPreferences_end t (case r of None \<Rightarrow> False | Some success \<Rightarrow> success) s"
| "exec env (HandleDirtyEditor_answered msg) s = handleDirtyEditor_answered msg s"
| "exec env HandleDirtyEditor_saved s = handleDirtyEditor_end (Some ''Save and Retry'') s"

text \<open>
  What a task and a suspended call still have to do, as a number: every task run takes
  some of it away, which is why running the tasks comes to an end.
\<close>

fun task_weight :: "'v task \<Rightarrow> nat" where
  "task_weight (SetPreference_loaded c k v resourceUri) = 5"
| "task_weight (SetPreference_free c k v) = 4"
| "task_weight (DoSetPreferences_handled t) = 2"
| "task_weight (DoSetPreferences_edited t r ok) = 2"
| "task_weight (DoSetPreferences_acquired t) = 1"
| "task_weight (DoSetPreferences_saved t r) = 1"
| "task_weight (HandleDirtyEditor_answered msg) = 1"
| "task_weight HandleDirtyEditor_saved = 1"

definition suspended_weight :: "'v Provider \<Rightarrow> nat" where
  "suspended_weight s =
     4 * length (onFree (fileEditLock s)) + length (queue (fileEditLock s))
       + 2 * length (gateWaiters s) + length (editQueue s)"

definition work :: "'v task list \<Rightarrow> 'v Provider \<Rightarrow> nat" where
  "work ts s = sum_list (map task_weight ts) + suspended_weight s"


text \<open>Every task run takes away some of the work.\<close>

lemma readPreferences_lists [simp]:
  "fileEditLock (readPreferences env s) = fileEditLock s"
  "gateWaiters (readPreferences env s) = gateWaiters s"
  "editQueue (readPreferences env s) = editQueue s"
  by (auto simp: readPreferences_def handlePreferenceChanges_def emitPreferencesChangedEvent_def Let_def split: option.splits)

lemma doSetPreference_weight:
  "doSetPreference env k v s = (ok, s') \<Longrightarrow> suspended_weight s' = suspended_weight s"
  by (auto simp: doSetPreference_def suspended_weight_def modelEdited_def failedToUpdate_def Let_def split: option.splits if_splits)

lemma resolveEdit_weight [simp]: "suspended_weight (resolveEdit r v s) = suspended_weight s"
  by (simp add: resolveEdit_def suspended_weight_def)

lemma fold_resolveEdit_weight [simp]:
  "suspended_weight (fold (\<lambda>e. resolveEdit (editResolver e) x) q s) = suspended_weight s"
  by (induction q arbitrary: s) simp_all


lemma filter_split_length: "length (filter P xs) + length (filter (\<lambda>x. \<not> P x) xs) = length xs"
  by (induction xs) auto

lemma handled_sum:
  "sum_list (map (task_weight \<circ> (\<lambda>w. DoSetPreferences_handled (snd w))) ws) = 2 * length ws"
  by (induction ws) auto

lemma free_sum:
  "sum_list (map (task_weight \<circ> (\<lambda>(c, k, v). SetPreference_free c k v)) ls) = 4 * length ls"
  by (induction ls) auto

lemma resolveDirtyEditorHandled_work:
  "resolveDirtyEditorHandled s = (new, s') \<Longrightarrow> work new s' = suspended_weight s"
  using filter_split_length [of "\<lambda>w. fst w = dirtyEditorHandled s" "gateWaiters s"]
  by (auto simp: resolveDirtyEditorHandled_def work_def suspended_weight_def handled_sum split: if_splits)

lemma fold_resolveEdit_lists [simp]:
  "fileEditLock (fold (\<lambda>e. resolveEdit (editResolver e) x) q s) = fileEditLock s"
  "gateWaiters (fold (\<lambda>e. resolveEdit (editResolver e) x) q s) = gateWaiters s"
  "editQueue (fold (\<lambda>e. resolveEdit (editResolver e) x) q s) = editQueue s"
  "gateResolves (fold (\<lambda>e. resolveEdit (editResolver e) x) q s) = gateResolves s"
  "dirtyEditorHandled (fold (\<lambda>e. resolveEdit (editResolver e) x) q s) = dirtyEditorHandled s"
  by (induction q arbitrary: s) (simp_all add: resolveEdit_def)

lemma handleDirtyEditor_end_work:
  "handleDirtyEditor_end msg s = (new, s') \<Longrightarrow> work new s' \<le> suspended_weight s"
  by (auto simp: handleDirtyEditor_end_def Let_def suspended_weight_def dest!: resolveDirtyEditorHandled_work split: if_splits)

lemma doSetPreferences_end_work:
  "doSetPreferences_end t b s = (new, s') \<Longrightarrow> work new s' = suspended_weight s"
  by (auto simp: doSetPreferences_end_def release_def work_def suspended_weight_def free_sum split: list.splits prod.splits)

lemma doSetPreferences_loop_work:
  "doSetPreferences_loop env t s = (new, s') \<Longrightarrow> work new s' \<le> suspended_weight s + 1"
  by (auto simp: doSetPreferences_loop_def acquire_def work_def suspended_weight_def Let_def dest!: doSetPreference_weight split: list.splits prod.splits if_splits)


lemma exec_work:
  "exec env t s = (new, s') \<Longrightarrow> work new s' < work [t] s"
proof (cases t)
  case (SetPreference_loaded c k v u)
  then show "exec env t s = (new, s') \<Longrightarrow> ?thesis"
    by (auto simp: setPreference_loaded_def waitUntilFree_def work_def suspended_weight_def split: if_splits)
next
  case (SetPreference_free c k v)
  then show "exec env t s = (new, s') \<Longrightarrow> ?thesis"
    by (auto simp: setPreference_free_def doSetPreferences_def handleDirtyEditor_def work_def suspended_weight_def Let_def split: if_splits option.splits)
next
  case (DoSetPreferences_handled t')
  then show "exec env t s = (new, s') \<Longrightarrow> ?thesis"
    by (auto simp: work_def dest!: doSetPreferences_loop_work)
next
  case (DoSetPreferences_edited t' r ok)
  then show "exec env t s = (new, s') \<Longrightarrow> ?thesis"
    by (auto simp: work_def dest!: doSetPreferences_loop_work)
next
  case (DoSetPreferences_acquired t')
  then show "exec env t s = (new, s') \<Longrightarrow> ?thesis"
    by (auto simp: doSetPreferences_acquired_def callSave_def work_def suspended_weight_def dest!: doSetPreferences_end_work split: option.splits if_splits)
next
  case (DoSetPreferences_saved t' r)
  then show "exec env t s = (new, s') \<Longrightarrow> ?thesis"
    by (auto simp: work_def dest!: doSetPreferences_end_work)
next
  case (HandleDirtyEditor_answered msg)
  then show "exec env t s = (new, s') \<Longrightarrow> ?thesis"
    by (auto simp: handleDirtyEditor_answered_def callSave_def work_def suspended_weight_def dest!: handleDirtyEditor_end_work split: option.splits if_splits)
next
  case HandleDirtyEditor_saved
  then show "exec env t s = (new, s') \<Longrightarrow> ?thesis"
    by (auto simp: work_def dest!: handleDirtyEditor_end_work)
qed

text \<open>
  The tasks are run in the order in which they were queued, each to its next \<^verbatim>\<open>await\<close>
  or to its end, until none is left.
\<close>

function run :: "'v env \<Rightarrow> 'v task list \<Rightarrow> 'v Provider \<Rightarrow> 'v Provider" where
  "run env [] s = s"
| "run env (t # ts) s = (case exec env t s of (new, s') \<Rightarrow> run env (ts @ new) s')"
  by pat_completeness auto
termination
  apply (relation "measure (\<lambda>(env, ts, s). work ts s)")
   apply simp
  subgoal for env t ts s new s'
    using exec_work [of env t s new s'] by (simp add: work_def)
  done

subsection \<open>What happens to the provider\<close>

text \<open>
  The provider is driven from outside by three kinds of events, each followed by the tasks
  it makes ready:
  \<^item> \<open>Calls cs\<close>: \<^verbatim>\<open>setPreference\<close> is called for every \<open>(key, value, resourceUri)\<close> of \<open>cs\<close>,
    one call after the other with nothing run in between (overlapping calls);
  \<^item> \<open>PromptAnswered msg\<close>: the user answers the oldest dirty-editor prompt;
  \<^item> \<open>SaveSettled r\<close>: the oldest pending \<^verbatim>\<open>model.save()\<close> settles: \<open>None\<close> when it throws,
    \<open>Some b\<close> when the document was saved, \<open>b\<close> being the value of \<^verbatim>\<open>this.pendingChanges\<close>
    that the base class reports after the save.
\<close>

datatype 'v event =
    Calls "(string \<times> 'v option \<times> string option) list"
  | PromptAnswered "string option"
  | SaveSettled "bool option"

fun setPreferences :: "(string \<times> 'v option \<times> string option) list \<Rightarrow> 'v Provider \<Rightarrow> 'v task list \<times> 'v Provider" where
  "setPreferences [] s = ([], s)"
| "setPreferences ((k, v, resourceUri) # cs) s =
     (case setPreference k v resourceUri s of
        (ts, s1) \<Rightarrow> (case setPreferences cs s1 of (ts', s2) \<Rightarrow> (ts @ ts', s2)))"

text \<open>
  A save that succeeds writes the text of the model and leaves the model clean; the model
  fires \<^verbatim>\<open>onDirtyChanged\<close> when that changes its flag.
\<close>

definition modelSaved :: "'v env \<Rightarrow> 'v Provider \<Rightarrow> 'v Provider" where
  "modelSaved env s =
     (case model s of
        None \<Rightarrow> s
      | Some m \<Rightarrow>
          let s1 = s\<lparr>model := Some (m\<lparr>dirty := False\<rparr>), disk := getText m\<rparr>
          in if dirty m then readPreferences env s1 else s1)"

fun fire :: "'v env \<Rightarrow> 'v Provider \<Rightarrow> 'v event \<Rightarrow> 'v Provider" where
  "fire env s (Calls cs) = (case setPreferences cs s of (ts, s1) \<Rightarrow> run env ts s1)"
| "fire env s (PromptAnswered msg) =
     (if pendingPrompts s = 0 then s
      else run env [HandleDirtyEditor_answered msg] (s\<lparr>pendingPrompts := pendingPrompts s - 1\<rparr>))"
| "fire env s (SaveSettled r) =
     (case pendingSaves s of
        [] \<Rightarrow> s
      | who # rest \<Rightarrow>
          let s1 = s\<lparr>pendingSaves := rest\<rparr>;
              s2 = (case r of None \<Rightarrow> s1 | Some b \<Rightarrow> modelSaved env s1)
          in run env
               (case who of
                  SaveOfTransaction t \<Rightarrow> [DoSetPreferences_saved t r]
                | SaveOfDirtyEditor \<Rightarrow> (case r of None \<Rightarrow> [] | Some b \<Rightarrow> [HandleDirtyEditor_saved]))
               s2)"

definition fire_all :: "'v env \<Rightarrow> 'v Provider \<Rightarrow> 'v event list \<Rightarrow> 'v Provider" where
  "fire_all env s evs = foldl (fire env) s evs"

text \<open>The value a call of \<^verbatim>\<open>setPreference\<close> resolved to, if it has.\<close>

definition resolved :: "'v Provider \<Rightarrow> nat \<Rightarrow> bool option" where
  "resolved s c =
     (case results s c of
        ReturnedFalse \<Rightarrow> Some False
      | ResolvedFalse \<Rightarrow> Some False
      | ResolvedWith t \<Rightarrow> localPendingChanges s t
      | _ \<Rightarrow> None)"

text \<open>
  A provider at rest: no edit is queued, no call is suspended, the lock is free and the
  deferred \<^verbatim>\<open>dirtyEditorHandled\<close> is resolved, as \<^verbatim>\<open>init\<close> leaves it.
\<close>

definition at_rest :: "'v Provider \<Rightarrow> bool" where
  "at_rest s =
     (editQueue s = [] \<and> \<not> loadingRejected s \<and> 0 < gateResolves s \<and>
      fileEditLock s = newLockQueue \<and> gateWaiters s = [] \<and> pendingPrompts s = 0 \<and>
      pendingSaves s = [])"


section \<open>Notions for the statements\<close>

subsection \<open>Histories of the lock\<close>

text \<open>The callers of \<^verbatim>\<open>acquire\<close> in a history, in the order of their calls.\<close>

fun acquirers :: "('q, 'f) lock_call list \<Rightarrow> 'q list" where
  "acquirers [] = []"
| "acquirers (Acquire h # cs) = h # acquirers cs"
| "acquirers (c # cs) = acquirers cs"

text \<open>The listeners called by the releases of a history.\<close>

fun notified :: "('q, 'f) LockQueue \<Rightarrow> ('q, 'f) lock_call list \<Rightarrow> 'f list" where
  "notified L [] = []"
| "notified L (Release # cs) = fst (snd (release L)) @ notified (lock_step L Release) cs"
| "notified L (c # cs) = notified (lock_step L c) cs"

text \<open>The lock is free only with an empty queue.\<close>

definition lock_inv :: "('q, 'f) LockQueue \<Rightarrow> bool" where
  "lock_inv L = (busy L \<or> queue L = [])"

subsection \<open>Outcomes of edits\<close>

text \<open>
  What the \<^verbatim>\<open>try\<close> block of \<^verbatim>\<open>doSetPreference\<close> comes to on a model: it returns without an
  edit (\<open>NotEdited\<close> with the value returned; \<open>False\<close> when there is no path), it throws
  (\<open>EditFailed\<close>), or the edit is applied (\<open>Edited\<close> with the model after the edit).
\<close>

datatype edit_outcome = NotEdited bool | EditFailed | Edited MonacoEditorModel

definition edit_outcome :: "'v env \<Rightarrow> string \<Rightarrow> 'v option \<Rightarrow> MonacoEditorModel \<Rightarrow> edit_outcome" where
  "edit_outcome env k v m =
     (case pathFor env k of
        None \<Rightarrow> NotEdited False
      | Some path \<Rightarrow>
          if trim (getText m) = [] \<and> v = None then NotEdited True
          else (case editOperations env m (trim (getText m)) path v of
                  None \<Rightarrow> EditFailed
                | Some operations \<Rightarrow>
                    (case applyBackgroundEdit env m operations of
                       None \<Rightarrow> EditFailed
                     | Some m' \<Rightarrow> Edited m')))"

text \<open>
  One turn of the loop of \<^verbatim>\<open>doSetPreferences\<close> for the queued change \<open>e\<close>, in the run \<open>t\<close>:
  the edit, and the resolution of \<^verbatim>\<open>editResolver\<close>.
\<close>

definition applyQueued :: "'v env \<Rightarrow> nat \<Rightarrow> 'v EnqueuedPreferenceChange \<Rightarrow> 'v Provider \<Rightarrow> 'v Provider" where
  "applyQueued env t e s =
     (case doSetPreference env (key e) (val e) s of
        (ok, s1) \<Rightarrow> resolveEdit (editResolver e) (if ok then ResolvedWith t else ResolvedFalse) s1)"

text \<open>
  What a run of \<^verbatim>\<open>doSetPreferences\<close> does once the queue is empty and the lock is free:
  it takes the lock and, with a dirty model, calls \<^verbatim>\<open>save\<close> and waits; with a clean one it
  releases the lock again and resolves \<^verbatim>\<open>localPendingChanges\<close> to \<^verbatim>\<open>true\<close>.
\<close>

definition settle :: "nat \<Rightarrow> 'v Provider \<Rightarrow> 'v Provider" where
  "settle t s =
     (if (case model s of None \<Rightarrow> False | Some m \<Rightarrow> dirty m)
      then callSave (SaveOfTransaction t) (s\<lparr>fileEditLock := newLockQueue\<lparr>busy := True\<rparr>\<rparr>)
      else s\<lparr>localPendingChanges := (localPendingChanges s)(t := Some True)\<rparr>)"


subsection \<open>A sample provider\<close>

text \<open>
  Values, a differ and a parser for the examples: stand-ins for the JSON values and for
  \<^verbatim>\<open>jsonc-parser\<close> on the few texts the examples use. On every other text the sample differ
  throws and the sample parser returns \<^verbatim>\<open>undefined\<close>.
\<close>

datatype sample_value = Num int | Bool bool | Obj "(string \<times> sample_value) list"

definition sample_modify :: "string \<Rightarrow> string list \<Rightarrow> sample_value option \<Rightarrow> Edit list option" where
  \<open>sample_modify c path v =
     (if c = ''{}'' \<and> path = [''a''] \<and> v = Some (Num 1)
      then Some [\<lparr>offset = 1, edit_length = 0, content = ''"a": 1''\<rparr>]
      else if c = ''{"a": 1}'' \<and> path = [''b''] \<and> v = Some (Num 2)
      then Some [\<lparr>offset = 7, edit_length = 0, content = '', "b": 2''\<rparr>]
      else if c = ''{"a": 1}'' \<and> path = [''a''] \<and> v = Some (Num 3)
      then Some [\<lparr>offset = 6, edit_length = 1, content = ''3''\<rparr>]
      else if c = ''{"foo": true}'' \<and> path = [''foo''] \<and> v = None
      then Some [\<lparr>offset = 1, edit_length = 11, content = ''''\<rparr>]
      else if c = ''{"foo": true}'' \<and> path = [''bar''] \<and> v = None
      then Some []
      else None)\<close>

definition sample_parse :: "string \<Rightarrow> sample_value option" where
  \<open>sample_parse c =
     (if c = ''{}'' then Some (Obj [])
      else if c = ''{"a": 1}'' then Some (Obj [(''a'', Num 1)])
      else if c = ''{"a": 3}'' then Some (Obj [(''a'', Num 3)])
      else if c = ''{"a": 1, "b": 2}'' then Some (Obj [(''a'', Num 1), (''b'', Num 2)])
      else if c = ''{"foo": true}'' then Some (Obj [(''foo'', Bool True)])
      else None)\<close>

definition sample_env :: "sample_value env" where
  "sample_env =
     \<lparr>getUri = ''file:///workspace/.theia/settings.json'', getScope = Folder, getDomain = None,
      pathFor = getPath, relativity = (\<lambda>a b. 0), modify = sample_modify,
      editRejected = (\<lambda>t ops. False), jsoncParse = sample_parse,
      isObject = (\<lambda>v. case v of Obj kvs \<Rightarrow> True | _ \<Rightarrow> False),
      forIn = (\<lambda>v. case v of Obj kvs \<Rightarrow> kvs | _ \<Rightarrow> []),
      deepEqual = (=), testOverrideValue = (\<lambda>n v. False),
      hasSchemaProperties = (\<lambda>n. False), isValidInScope = (\<lambda>n sc. True)\<rparr>"

text \<open>A provider at rest on a document with the text \<open>t\<close>, dirty or not, and the snapshot \<open>prefs\<close>.\<close>

definition sample_provider :: "string \<Rightarrow> bool \<Rightarrow> (string \<times> sample_value) list \<Rightarrow> sample_value Provider" where
  "sample_provider t d prefs =
     \<lparr>preferences = prefs, model = Some \<lparr>getText = t, dirty = d, valid = True\<rparr>, editQueue = [],
      loadingRejected = False, dirtyEditorHandled = 0, gateResolves = 1,
      fileEditLock = newLockQueue, results = (\<lambda>c. Running), nextCall = 0,
      localPendingChanges = (\<lambda>t. None), nextTransaction = 0, gateWaiters = [],
      pendingPrompts = 0, pendingSaves = [], disk = t, saveCalls = 0, promptsShown = 0,
      errorMessages = [], consoleErrors = 0, openedFiles = 0, emitted = []\<rparr>"

subsection \<open>Overlapping calls\<close>

text \<open>
  For the calls \<open>cs\<close> of one event, numbered from \<open>n\<close>: the tasks after
  \<^verbatim>\<open>await this.loading.promise\<close>, the tasks after \<^verbatim>\<open>await this.fileEditLock.waitUntilFree()\<close>,
  and the changes the calls queue. \<open>mark n len x f\<close> gives the \<open>len\<close> promises from \<open>n\<close> on
  the state \<open>x\<close>. \<open>in_domain\<close>: every call passes the test \<^verbatim>\<open>this.contains(resourceUri)\<close>.
\<close>

type_synonym 'v call = "string \<times> 'v option \<times> string option"

fun loaded_tasks :: "nat \<Rightarrow> 'v call list \<Rightarrow> 'v task list" where
  "loaded_tasks n [] = []"
| "loaded_tasks n ((k, v, resourceUri) # cs) = SetPreference_loaded n k v resourceUri # loaded_tasks (Suc n) cs"

fun free_tasks :: "nat \<Rightarrow> 'v call list \<Rightarrow> 'v task list" where
  "free_tasks n [] = []"
| "free_tasks n ((k, v, resourceUri) # cs) = SetPreference_free n k v # free_tasks (Suc n) cs"

fun entries :: "nat \<Rightarrow> 'v call list \<Rightarrow> 'v EnqueuedPreferenceChange list" where
  "entries n [] = []"
| "entries n ((k, v, resourceUri) # cs) = \<lparr>key = k, val = v, editResolver = n\<rparr> # entries (Suc n) cs"

definition mark :: "nat \<Rightarrow> nat \<Rightarrow> Resolution \<Rightarrow> (nat \<Rightarrow> Resolution) \<Rightarrow> nat \<Rightarrow> Resolution" where
  "mark n len x f = (\<lambda>c. if n \<le> c \<and> c < n + len then x else f c)"

definition in_domain :: "'v env \<Rightarrow> 'v call list \<Rightarrow> bool" where
  "in_domain env cs = list_all (\<lambda>(k, v, resourceUri). contains env resourceUri) cs"


subsection \<open>What a run of \<^verbatim>\<open>doSetPreferences\<close> does to the queue\<close>

text \<open>
  A write is a key with the value to set. For the writes of a queue, taken in order from a
  model: the outcome of every edit (\<open>outcomes\<close>; without a model \<^verbatim>\<open>doSetPreference\<close> returns
  \<^verbatim>\<open>false\<close>), the model after all of them (\<open>final_model\<close>), whether \<^verbatim>\<open>doSetPreference\<close>
  returned \<^verbatim>\<open>true\<close> (\<open>edit_ok\<close>), what \<^verbatim>\<open>editResolver\<close> is resolved with in the run \<open>t\<close>
  (\<open>resolution\<close>, \<open>drain_results\<close>), and the error notifications shown (\<open>failures\<close>).
\<close>

type_synonym 'v pref_write = "string \<times> 'v option"

definition queued_writes :: "'v EnqueuedPreferenceChange list \<Rightarrow> 'v pref_write list" where
  "queued_writes q = map (\<lambda>e. (key e, val e)) q"

definition called_writes :: "'v call list \<Rightarrow> 'v pref_write list" where
  "called_writes cs = map (\<lambda>(k, v, resourceUri). (k, v)) cs"

definition outcome_of :: "'v env \<Rightarrow> MonacoEditorModel option \<Rightarrow> 'v pref_write \<Rightarrow> edit_outcome" where
  "outcome_of env mo w =
     (case mo of None \<Rightarrow> NotEdited False | Some m \<Rightarrow> edit_outcome env (fst w) (snd w) m)"

definition model_after :: "MonacoEditorModel option \<Rightarrow> edit_outcome \<Rightarrow> MonacoEditorModel option" where
  "model_after mo out = (case out of Edited m' \<Rightarrow> Some m' | _ \<Rightarrow> mo)"

fun outcomes :: "'v env \<Rightarrow> MonacoEditorModel option \<Rightarrow> 'v pref_write list \<Rightarrow> edit_outcome list" where
  "outcomes env mo [] = []"
| "outcomes env mo (w # ws) = outcome_of env mo w # outcomes env (model_after mo (outcome_of env mo w)) ws"

fun final_model :: "'v env \<Rightarrow> MonacoEditorModel option \<Rightarrow> 'v pref_write list \<Rightarrow> MonacoEditorModel option" where
  "final_model env mo [] = mo"
| "final_model env mo (w # ws) = final_model env (model_after mo (outcome_of env mo w)) ws"

fun edit_ok :: "edit_outcome \<Rightarrow> bool" where
  "edit_ok (NotEdited b) = b"
| "edit_ok EditFailed = False"
| "edit_ok (Edited m) = True"

definition resolution :: "nat \<Rightarrow> edit_outcome \<Rightarrow> Resolution" where
  "resolution t out = (if edit_ok out then ResolvedWith t else ResolvedFalse)"

definition resolve_in :: "nat \<Rightarrow> Resolution \<Rightarrow> (nat \<Rightarrow> Resolution) \<Rightarrow> nat \<Rightarrow> Resolution" where
  "resolve_in r x f = (if f r = Unresolved then f(r := x) else f)"

fun drain_results :: "nat \<Rightarrow> 'v EnqueuedPreferenceChange list \<Rightarrow> edit_outcome list \<Rightarrow> (nat \<Rightarrow> Resolution) \<Rightarrow> nat \<Rightarrow> Resolution" where
  "drain_results t (e # q) (out # outs) f = drain_results t q outs (resolve_in (editResolver e) (resolution t out) f)"
| "drain_results t q outs f = f"

fun failures :: "'v env \<Rightarrow> 'v pref_write list \<Rightarrow> edit_outcome list \<Rightarrow> string list" where
  "failures env (w # ws) (out # outs) =
     (if out = EditFailed then [failedMessage env (fst w) @ '' Please check if it is corrupted.''] else [])
       @ failures env ws outs"
| "failures env ws outs = []"


subsection \<open>The provider after overlapping calls\<close>

text \<open>
  \<open>drained_from env n cs s\<close>: the provider \<open>s\<close> after a new run of \<^verbatim>\<open>doSetPreferences\<close> has
  taken the changes of the calls \<open>cs\<close>, numbered from \<open>n\<close>, through its loop.
  \<open>prompted_from n cs s\<close>: the provider \<open>s\<close> after the calls \<open>cs\<close> found a dirty document:
  the prompt is shown, the changes are queued and the new run waits for the answer.
\<close>

definition drained_from :: "'v env \<Rightarrow> nat \<Rightarrow> 'v call list \<Rightarrow> 'v Provider \<Rightarrow> 'v Provider" where
  "drained_from env n cs s =
     s\<lparr>nextTransaction := nextTransaction s + 1,
       localPendingChanges := (localPendingChanges s)(nextTransaction s := None),
       model := final_model env (model s) (called_writes cs),
       results := drain_results (nextTransaction s) (entries n cs)
                    (outcomes env (model s) (called_writes cs))
                    (mark n (length cs) Unresolved (results s)),
       errorMessages := errorMessages s @ failures env (called_writes cs) (outcomes env (model s) (called_writes cs)),
       consoleErrors := consoleErrors s
                          + length (failures env (called_writes cs) (outcomes env (model s) (called_writes cs)))\<rparr>"

definition prompted_from :: "nat \<Rightarrow> 'v call list \<Rightarrow> 'v Provider \<Rightarrow> 'v Provider" where
  "prompted_from n cs s =
     s\<lparr>editQueue := entries n cs,
       results := mark n (length cs) Unresolved (results s),
       dirtyEditorHandled := dirtyEditorHandled s + 1,
       gateResolves := 0,
       promptsShown := promptsShown s + 1,
       pendingPrompts := pendingPrompts s + 1,
       nextTransaction := nextTransaction s + 1,
       localPendingChanges := (localPendingChanges s)(nextTransaction s := None),
       gateWaiters := gateWaiters s @ [(dirtyEditorHandled s + 1, nextTransaction s)]\<rparr>"


subsection \<open>The document after a batch of writes\<close>









text \<open>
  The value of \<^verbatim>\<open>success\<close> at the end of a run of \<^verbatim>\<open>doSetPreferences\<close> that finds the model
  \<open>mo\<close> after its loop, when the save it may call settles as \<open>r\<close>.
\<close>

definition transaction_outcome :: "MonacoEditorModel option \<Rightarrow> bool option \<Rightarrow> bool" where
  "transaction_outcome mo r =
     (case mo of
        None \<Rightarrow> True
      | Some m \<Rightarrow> if dirty m then (case r of None \<Rightarrow> False | Some b \<Rightarrow> b) else True)"


text \<open>
  The sample provider on the clean document \<open>{}\<close> with three changes in its queue; the
  sample differ throws for the second one.
\<close>

definition sample_queued :: "sample_value Provider" where
  \<open>sample_queued =
     (sample_provider ''{}'' False [])
       \<lparr>editQueue := [\<lparr>key = ''a'', val = Some (Num 1), editResolver = 0\<rparr>,
                      \<lparr>key = ''zz'', val = Some (Num 2), editResolver = 1\<rparr>,
                      \<lparr>key = ''b'', val = Some (Num 2), editResolver = 2\<rparr>],
        results := (\<lambda>c. Unresolved), nextCall := 3, nextTransaction := 1\<rparr>\<close>


text \<open>The sample provider on the clean document \<open>{}\<close> with two changes in its queue.\<close>

definition sample_pair :: "sample_value Provider" where
  \<open>sample_pair =
     (sample_provider ''{}'' False [])
       \<lparr>editQueue := [\<lparr>key = ''a'', val = Some (Num 1), editResolver = 0\<rparr>,
                      \<lparr>key = ''b'', val = Some (Num 2), editResolver = 1\<rparr>],
        results := (\<lambda>c. Unresolved), nextCall := 2, nextTransaction := 1\<rparr>\<close>


text \<open>
  \<open>prompted cs css s\<close>: the provider \<open>s\<close> after the calls \<open>cs\<close> found a dirty document and
  the calls of the later events \<open>css\<close> found the queue in use: one prompt is shown, all
  changes are queued, one run of \<^verbatim>\<open>doSetPreferences\<close> waits for the answer.
\<close>

definition prompted :: "'v call list \<Rightarrow> 'v call list list \<Rightarrow> 'v Provider \<Rightarrow> 'v Provider" where
  "prompted cs css s =
     s\<lparr>nextCall := nextCall s + length (cs @ concat css),
       editQueue := entries (nextCall s) (cs @ concat css),
       results := mark (nextCall s) (length (cs @ concat css)) Unresolved (results s),
       dirtyEditorHandled := dirtyEditorHandled s + 1,
       gateResolves := 0,
       promptsShown := promptsShown s + 1,
       pendingPrompts := pendingPrompts s + 1,
       nextTransaction := nextTransaction s + 1,
       localPendingChanges := (localPendingChanges s)(nextTransaction s := None),
       gateWaiters := gateWaiters s @ [(dirtyEditorHandled s + 1, nextTransaction s)]\<rparr>"


text \<open>
  \<open>declined msg cs css s\<close>: the provider \<open>prompted cs css s\<close> after the user answered the
  prompt with \<open>msg\<close>, which is not \<open>Save and Retry\<close>: the queued changes are resolved with
  \<^verbatim>\<open>false\<close> and dropped, and the run that waited has gone on with the empty queue, has
  taken the lock and has called \<^verbatim>\<open>save\<close> for the document, which is still dirty.
\<close>

definition declined :: "string option \<Rightarrow> 'v call list \<Rightarrow> 'v call list list \<Rightarrow> 'v Provider \<Rightarrow> 'v Provider" where
  "declined msg cs css s =
     s\<lparr>nextCall := nextCall s + length (cs @ concat css),
       editQueue := [],
       results := mark (nextCall s) (length (cs @ concat css)) ResolvedFalse (results s),
       dirtyEditorHandled := dirtyEditorHandled s + 1,
       gateResolves := 1,
       promptsShown := promptsShown s + 1,
       pendingPrompts := 0,
       nextTransaction := nextTransaction s + 1,
       localPendingChanges := (localPendingChanges s)(nextTransaction s := None),
       gateWaiters := [],
       openedFiles := openedFiles s + (if msg = Some ''Open File'' then 1 else 0),
       fileEditLock := newLockQueue\<lparr>busy := True\<rparr>,
       saveCalls := saveCalls s + 1,
       pendingSaves := [SaveOfTransaction (nextTransaction s)]\<rparr>"

subsection \<open>The outcome of one call\<close>




section \<open>Properties of the lock queue\<close>

lemma lock_step_inv: "lock_inv L \<Longrightarrow> lock_inv (lock_step L c)"
  by (cases c) (auto simp: lock_inv_def acquire_def release_def waitUntilFree_def Let_def split: list.splits)

lemma foldl_lock_step_inv: "lock_inv L \<Longrightarrow> lock_inv (foldl lock_step L cs)"
  by (induction cs arbitrary: L) (simp_all add: lock_step_inv)

lemma lock_after_inv: "lock_inv (lock_after cs)"
  unfolding lock_after_def by (rule foldl_lock_step_inv) (simp add: lock_inv_def newLockQueue_def)

lemma granted_fifo:
  "lock_inv L \<Longrightarrow> granted L cs @ queue (foldl lock_step L cs) = queue L @ acquirers cs"
proof (induction cs arbitrary: L)
  case Nil
  then show ?case by simp
next
  case (Cons c cs)
  have inv: "lock_inv (lock_step L c)" using Cons.prems by (rule lock_step_inv)
  show ?case
  proof (cases c)
    case (Acquire h)
    then show ?thesis
      using Cons.IH [OF inv] Cons.prems
      by (auto simp: acquire_def lock_inv_def Let_def)
  next
    case Release
    then show ?thesis
      using Cons.IH [OF inv] Cons.prems
      by (auto simp: release_def lock_inv_def split: list.splits)
  next
    case (WaitUntilFree h)
    then show ?thesis
      using Cons.IH [OF inv]
      by (auto simp: waitUntilFree_def)
  qed
qed

lemma notified_iff_freed:
  "busy L \<Longrightarrow> h \<in> set (onFree L) \<Longrightarrow>
   (h \<in> set (notified L cs) \<longleftrightarrow> (\<exists>n \<le> length cs. \<not> busy (foldl lock_step L (take n cs))))"
proof (induction cs arbitrary: L)
  case Nil
  then show ?case by simp
next
  case (Cons c cs)
  have shift: "(\<exists>n \<le> length (c # cs). \<not> busy (foldl lock_step L (take n (c # cs)))) \<longleftrightarrow>
               (\<exists>n \<le> length cs. \<not> busy (foldl lock_step (lock_step L c) (take n cs)))"
    (is "?A \<longleftrightarrow> ?B")
  proof
    assume ?A
    then obtain n where n: "n \<le> length (c # cs)" "\<not> busy (foldl lock_step L (take n (c # cs)))"
      by blast
    with Cons.prems(1) obtain m where "n = Suc m" by (cases n) auto
    with n show ?B by auto
  next
    assume ?B
    then obtain n where "n \<le> length cs" "\<not> busy (foldl lock_step (lock_step L c) (take n cs))"
      by blast
    then have "Suc n \<le> length (c # cs)" "\<not> busy (foldl lock_step L (take (Suc n) (c # cs)))"
      by auto
    then show ?A by blast
  qed
  show ?case
  proof (cases "c = Release \<and> queue L = []")
    case True
    then have "h \<in> set (notified L (c # cs))"
      using Cons.prems by (simp add: release_def)
    moreover have "\<not> busy (foldl lock_step L (take 1 (c # cs)))"
      using True by (simp add: release_def)
    then have "\<exists>n \<le> length (c # cs). \<not> busy (foldl lock_step L (take n (c # cs)))"
      by (intro exI [of _ 1]) simp
    ultimately show ?thesis by blast
  next
    case False
    then have keep: "busy (lock_step L c)" "h \<in> set (onFree (lock_step L c))"
      using Cons.prems
      by (cases c; auto simp: acquire_def release_def waitUntilFree_def Let_def split: list.splits)+
    have "notified L (c # cs) = notified (lock_step L c) cs"
      using False by (cases c) (auto simp: release_def split: list.splits)
    then show ?thesis
      using Cons.IH [OF keep] shift by simp
  qed
qed


section \<open>Properties of the provider\<close>

subsection \<open>What an edit changes\<close>

lemma readPreferences_dirty: "model s = Some m \<Longrightarrow> dirty m \<Longrightarrow> readPreferences env s = s"
  by (simp add: readPreferences_def)

lemma applyBackgroundEdit_dirty:
  "applyBackgroundEdit env m operations = Some m' \<Longrightarrow> m' = m \<or> dirty m'"
  by (auto simp: applyBackgroundEdit_def split: if_splits)

lemma modelEdited_eq:
  assumes "m' = m \<or> dirty m'" "model s = Some m"
  shows "modelEdited env m m' s = s\<lparr>model := Some m'\<rparr>"
proof (cases "m' = m")
  case True
  with assms(2) show ?thesis by (simp add: modelEdited_def)
next
  case False
  with assms(1) have d: "dirty m'" by simp
  have r: "readPreferences env (s\<lparr>model := Some m'\<rparr>) = s\<lparr>model := Some m'\<rparr>"
    by (rule readPreferences_dirty [of _ m']) (simp_all add: d)
  show ?thesis using False by (simp add: modelEdited_def Let_def r)
qed

lemma doSetPreference_eq:
  "doSetPreference env k v s =
     (case model s of
        None \<Rightarrow> (False, s)
      | Some m \<Rightarrow>
          (case edit_outcome env k v m of
             NotEdited b \<Rightarrow> (b, s)
           | EditFailed \<Rightarrow> (False, failedToUpdate env k s)
           | Edited m' \<Rightarrow> (True, s\<lparr>model := Some m'\<rparr>)))"
proof (cases "model s")
  case None
  then show ?thesis by (simp add: doSetPreference_def)
next
  case (Some m)
  have "\<And>operations m'. applyBackgroundEdit env m operations = Some m' \<Longrightarrow>
          modelEdited env m m' s = s\<lparr>model := Some m'\<rparr>"
    using applyBackgroundEdit_dirty modelEdited_eq Some by blast
  with Some show ?thesis
    by (auto simp: doSetPreference_def edit_outcome_def Let_def split: option.splits)
qed


subsection \<open>The loop of \<^verbatim>\<open>doSetPreferences\<close>\<close>

lemma run_single: "run env [t] s = (case exec env t s of (new, s') \<Rightarrow> run env new s')"
  by simp

lemma run_edited:
  "run env [DoSetPreferences_edited t r ok] s =
   run env [DoSetPreferences_handled t] (resolveEdit r (if ok then ResolvedWith t else ResolvedFalse) s)"
  by (simp only: run_single exec.simps)

lemma run_handled_Cons:
  assumes "editQueue s = e # rest"
  shows "run env [DoSetPreferences_handled t] s =
         run env [DoSetPreferences_handled t] (applyQueued env t e (s\<lparr>editQueue := rest\<rparr>))"
proof -
  obtain ok s1 where d: "doSetPreference env (key e) (val e) (s\<lparr>editQueue := rest\<rparr>) = (ok, s1)"
    by (cases "doSetPreference env (key e) (val e) (s\<lparr>editQueue := rest\<rparr>)")
  have "run env [DoSetPreferences_handled t] s = run env [DoSetPreferences_edited t (editResolver e) ok] s1"
    using assms d by (simp add: doSetPreferences_loop_def)
  also have "\<dots> = run env [DoSetPreferences_handled t]
                    (resolveEdit (editResolver e) (if ok then ResolvedWith t else ResolvedFalse) s1)"
    by (rule run_edited)
  finally show ?thesis by (simp add: applyQueued_def d)
qed

lemma run_handled_Nil:
  assumes "editQueue s = []" "fileEditLock s = newLockQueue"
  shows "run env [DoSetPreferences_handled t] s = settle t s"
  using assms
  by (simp add: doSetPreferences_loop_def acquire_def newLockQueue_def Let_def
      doSetPreferences_acquired_def doSetPreferences_end_def release_def settle_def callSave_def
      split: option.splits)

lemma applyQueued_eq:
  "applyQueued env t e s =
     (case model s of
        None \<Rightarrow> resolveEdit (editResolver e) ResolvedFalse s
      | Some m \<Rightarrow>
          (case edit_outcome env (key e) (val e) m of
             NotEdited b \<Rightarrow> resolveEdit (editResolver e) (if b then ResolvedWith t else ResolvedFalse) s
           | EditFailed \<Rightarrow> resolveEdit (editResolver e) ResolvedFalse (failedToUpdate env (key e) s)
           | Edited m' \<Rightarrow> resolveEdit (editResolver e) (ResolvedWith t) (s\<lparr>model := Some m'\<rparr>)))"
  by (simp add: applyQueued_def doSetPreference_eq split: option.splits edit_outcome.splits)

lemma applyQueued_frame [simp]:
  "editQueue (applyQueued env t e s) = editQueue s"
  "fileEditLock (applyQueued env t e s) = fileEditLock s"
  by (simp_all add: applyQueued_eq resolveEdit_def failedToUpdate_def Let_def split: option.splits edit_outcome.splits)

lemma applyQueued_editQueue_upd:
  "(applyQueued env t e (s\<lparr>editQueue := q\<rparr>))\<lparr>editQueue := q'\<rparr> = applyQueued env t e (s\<lparr>editQueue := q'\<rparr>)"
  by (simp add: applyQueued_eq resolveEdit_def failedToUpdate_def Let_def split: option.splits edit_outcome.splits)

lemma run_handled:
  "editQueue s = q \<Longrightarrow> fileEditLock s = newLockQueue \<Longrightarrow>
   run env [DoSetPreferences_handled t] s = settle t (fold (applyQueued env t) q (s\<lparr>editQueue := []\<rparr>))"
proof (induction q arbitrary: s)
  case Nil
  from Nil.prems(1) have "s\<lparr>editQueue := []\<rparr> = s\<lparr>editQueue := editQueue s\<rparr>" by simp
  then have e: "s\<lparr>editQueue := []\<rparr> = s" by simp
  have "run env [DoSetPreferences_handled t] s = settle t s"
    using Nil.prems by (rule run_handled_Nil)
  then show ?case by (simp only: fold_simps e)
next
  case (Cons e rest)
  let ?s1 = "applyQueued env t e (s\<lparr>editQueue := rest\<rparr>)"
  have "run env [DoSetPreferences_handled t] s = run env [DoSetPreferences_handled t] ?s1"
    using Cons.prems(1) by (rule run_handled_Cons)
  also have "\<dots> = settle t (fold (applyQueued env t) rest (?s1\<lparr>editQueue := []\<rparr>))"
    by (rule Cons.IH) (simp_all add: Cons.prems)
  finally show ?case by (simp add: applyQueued_editQueue_upd)
qed


subsection \<open>Overlapping calls of \<^verbatim>\<open>setPreference\<close>\<close>

declare run.simps [simp del]

lemma mark_0 [simp]: "mark n 0 x f = f"
  by (auto simp: mark_def fun_eq_iff)

lemma mark_Suc: "mark (Suc n) len x (f(n := x)) = mark n (Suc len) x f"
  by (auto simp: mark_def fun_eq_iff)

lemma mark_over: "mark (Suc n) len x ((mark n (Suc len) y f)(n := x)) = mark n (Suc len) x f"
  by (auto simp: mark_def fun_eq_iff)

lemma setPreferences_eq:
  "setPreferences cs s =
     (loaded_tasks (nextCall s) cs,
      s\<lparr>nextCall := nextCall s + length cs,
        results := mark (nextCall s) (length cs) Running (results s)\<rparr>)"
proof (induction cs arbitrary: s)
  case Nil
  show ?case by simp
next
  case (Cons c cs)
  obtain k v u where c: "c = (k, v, u)" by (cases c)
  show ?case
    by (simp add: c setPreference_def Cons.IH Let_def mark_Suc)
qed

lemma run_loaded:
  "\<not> loadingRejected s \<Longrightarrow> model s = Some m \<Longrightarrow> \<not> busy (fileEditLock s) \<Longrightarrow> in_domain env cs \<Longrightarrow>
   run env (loaded_tasks n cs @ ts) s = run env (ts @ free_tasks n cs) s"
proof (induction cs arbitrary: n ts)
  case Nil
  show ?case by simp
next
  case (Cons c cs)
  obtain k v u where c: "c = (k, v, u)" by (cases c)
  have dom: "contains env u" "in_domain env cs"
    using Cons.prems(4) by (simp_all add: c in_domain_def)
  have "run env (loaded_tasks n (c # cs) @ ts) s = run env ((loaded_tasks (Suc n) cs @ ts) @ [SetPreference_free n k v]) s"
    using Cons.prems(1-3) dom(1)
    by (simp add: c run.simps setPreference_loaded_def waitUntilFree_def)
  also have "\<dots> = run env (loaded_tasks (Suc n) cs @ (ts @ [SetPreference_free n k v])) s"
    by simp
  also have "\<dots> = run env ((ts @ [SetPreference_free n k v]) @ free_tasks (Suc n) cs) s"
    using Cons.prems(1-3) dom(2) by (rule Cons.IH)
  finally show ?case by (simp add: c)
qed

lemma run_free_queued:
  "editQueue s \<noteq> [] \<Longrightarrow>
   run env (free_tasks n cs @ ts) s =
   run env ts (s\<lparr>editQueue := editQueue s @ entries n cs,
                 results := mark n (length cs) Unresolved (results s)\<rparr>)"
proof (induction cs arbitrary: n s)
  case Nil
  show ?case by simp
next
  case (Cons c cs)
  obtain k v u where c: "c = (k, v, u)" by (cases c)
  let ?s1 = "s\<lparr>editQueue := editQueue s @ [\<lparr>key = k, val = v, editResolver = n\<rparr>],
                results := (results s)(n := Unresolved)\<rparr>"
  have "run env (free_tasks n (c # cs) @ ts) s = run env (free_tasks (Suc n) cs @ ts) ?s1"
    using Cons.prems by (simp add: c run.simps setPreference_free_def Let_def)
  also have "\<dots> = run env ts (?s1\<lparr>editQueue := editQueue ?s1 @ entries (Suc n) cs,
                                   results := mark (Suc n) (length cs) Unresolved (results ?s1)\<rparr>)"
    by (rule Cons.IH) simp
  finally show ?case by (simp add: c mark_Suc)
qed

lemma exec_free_first_clean:
  assumes "editQueue s = []" "model s = Some m" "\<not> dirty m" "0 < gateResolves s"
  shows "exec env (SetPreference_free n k v) s =
           ([DoSetPreferences_handled (nextTransaction s)],
            s\<lparr>editQueue := [\<lparr>key = k, val = v, editResolver = n\<rparr>],
              results := (results s)(n := Unresolved),
              nextTransaction := nextTransaction s + 1,
              localPendingChanges := (localPendingChanges s)(nextTransaction s := None)\<rparr>)"
  using assms by (simp add: setPreference_free_def doSetPreferences_def Let_def)

lemma exec_free_first_dirty:
  assumes "editQueue s = []" "model s = Some m" "dirty m"
  shows "exec env (SetPreference_free n k v) s =
           ([],
            s\<lparr>editQueue := [\<lparr>key = k, val = v, editResolver = n\<rparr>],
              results := (results s)(n := Unresolved),
              dirtyEditorHandled := dirtyEditorHandled s + 1,
              gateResolves := 0,
              promptsShown := promptsShown s + 1,
              pendingPrompts := pendingPrompts s + 1,
              nextTransaction := nextTransaction s + 1,
              localPendingChanges := (localPendingChanges s)(nextTransaction s := None),
              gateWaiters := gateWaiters s @ [(dirtyEditorHandled s + 1, nextTransaction s)]\<rparr>)"
  using assms by (simp add: setPreference_free_def doSetPreferences_def handleDirtyEditor_def Let_def)


subsection \<open>The queue after the loop\<close>

lemma applyQueued_update:
  "applyQueued env t e s =
     s\<lparr>model := model_after (model s) (outcome_of env (model s) (key e, val e)),
       results := resolve_in (editResolver e) (resolution t (outcome_of env (model s) (key e, val e))) (results s),
       errorMessages := errorMessages s @ failures env [(key e, val e)] [outcome_of env (model s) (key e, val e)],
       consoleErrors := consoleErrors s + length (failures env [(key e, val e)] [outcome_of env (model s) (key e, val e)])\<rparr>"
proof (cases "model s")
  case None
  then show ?thesis
    by (simp add: applyQueued_eq outcome_of_def model_after_def resolveEdit_def resolve_in_def resolution_def)
next
  case (Some m)
  then show ?thesis
    by (cases "edit_outcome env (key e) (val e) m")
       (simp_all add: applyQueued_eq outcome_of_def model_after_def resolveEdit_def resolve_in_def
          resolution_def failedToUpdate_def)
qed

lemma fold_applyQueued:
  "fold (applyQueued env t) q s =
     s\<lparr>model := final_model env (model s) (queued_writes q),
       results := drain_results t q (outcomes env (model s) (queued_writes q)) (results s),
       errorMessages := errorMessages s @ failures env (queued_writes q) (outcomes env (model s) (queued_writes q)),
       consoleErrors := consoleErrors s + length (failures env (queued_writes q) (outcomes env (model s) (queued_writes q)))\<rparr>"
proof (induction q arbitrary: s)
  case Nil
  show ?case by (simp add: queued_writes_def)
next
  case (Cons e q)
  define s1 where "s1 = applyQueued env t e s"
  have s1: "s1 =
     s\<lparr>model := model_after (model s) (outcome_of env (model s) (key e, val e)),
       results := resolve_in (editResolver e) (resolution t (outcome_of env (model s) (key e, val e))) (results s),
       errorMessages := errorMessages s @ failures env [(key e, val e)] [outcome_of env (model s) (key e, val e)],
       consoleErrors := consoleErrors s + length (failures env [(key e, val e)] [outcome_of env (model s) (key e, val e)])\<rparr>"
    unfolding s1_def by (rule applyQueued_update)
  have "fold (applyQueued env t) (e # q) s = fold (applyQueued env t) q s1"
    by (simp add: s1_def)
  also have "\<dots> =
     s1\<lparr>model := final_model env (model s1) (queued_writes q),
        results := drain_results t q (outcomes env (model s1) (queued_writes q)) (results s1),
        errorMessages := errorMessages s1 @ failures env (queued_writes q) (outcomes env (model s1) (queued_writes q)),
        consoleErrors := consoleErrors s1 + length (failures env (queued_writes q) (outcomes env (model s1) (queued_writes q)))\<rparr>"
    by (rule Cons.IH)
  also have "\<dots> =
     s\<lparr>model := final_model env (model s) (queued_writes (e # q)),
       results := drain_results t (e # q) (outcomes env (model s) (queued_writes (e # q))) (results s),
       errorMessages := errorMessages s @ failures env (queued_writes (e # q)) (outcomes env (model s) (queued_writes (e # q))),
       consoleErrors := consoleErrors s + length (failures env (queued_writes (e # q)) (outcomes env (model s) (queued_writes (e # q))))\<rparr>"
    by (simp add: s1 queued_writes_def)
  finally show ?case .
qed

lemma length_outcomes [simp]: "length (outcomes env mo ws) = length ws"
  by (induction ws arbitrary: mo) simp_all

lemma drain_results_other:
  "c \<notin> editResolver ` set q \<Longrightarrow> drain_results t q outs f c = f c"
  by (induction t q outs f rule: drain_results.induct) (auto simp: resolve_in_def)

lemma drain_results_nth:
  "distinct (map editResolver q) \<Longrightarrow> \<forall>e \<in> set q. f (editResolver e) = Unresolved \<Longrightarrow>
   length outs = length q \<Longrightarrow> i < length q \<Longrightarrow>
   drain_results t q outs f (editResolver (q ! i)) = resolution t (outs ! i)"
proof (induction t q outs f arbitrary: i rule: drain_results.induct)
  case (1 t e q out outs f)
  show ?case
  proof (cases i)
    case 0
    have "editResolver e \<notin> editResolver ` set q" using "1.prems"(1) by auto
    then show ?thesis
      using "1.prems"(2) 0 by (simp add: drain_results_other resolve_in_def)
  next
    case (Suc j)
    have "drain_results t q outs (resolve_in (editResolver e) (resolution t out) f) (editResolver (q ! j))
          = resolution t (outs ! j)"
    proof (rule "1.IH")
      show "distinct (map editResolver q)" using "1.prems"(1) by simp
      show "\<forall>e' \<in> set q. resolve_in (editResolver e) (resolution t out) f (editResolver e') = Unresolved"
      proof
        fix e' assume e': "e' \<in> set q"
        have "editResolver e \<notin> editResolver ` set q" using "1.prems"(1) by simp
        moreover have "editResolver e' \<in> editResolver ` set q" using e' by (rule imageI)
        ultimately have "editResolver e' \<noteq> editResolver e" by metis
        then show "resolve_in (editResolver e) (resolution t out) f (editResolver e') = Unresolved"
          using "1.prems"(2) e' by (simp add: resolve_in_def)
      qed
      show "length outs = length q" using "1.prems"(3) by simp
      show "j < length q" using "1.prems"(4) Suc by simp
    qed
    then show ?thesis using Suc by simp
  qed
qed simp_all


subsection \<open>A save settles\<close>

lemma readPreferences_clean:
  assumes "model s = Some m" "\<not> dirty m"
  shows "readPreferences env s =
           s\<lparr>preferences := (if valid m then getParsedContent env (getText m) else []),
             emitted := emitted s @
               (if prefChanges env (preferences s) (if valid m then getParsedContent env (getText m) else []) \<noteq> []
                then [prefChanges env (preferences s) (if valid m then getParsedContent env (getText m) else [])]
                else [])\<rparr>"
  using assms
  by (simp add: readPreferences_def handlePreferenceChanges_def emitPreferencesChangedEvent_def Let_def)

lemma modelSaved_dirty:
  assumes "model s = Some m" "dirty m"
  shows "modelSaved env s =
           s\<lparr>model := Some (m\<lparr>dirty := False\<rparr>), disk := getText m,
             preferences := (if valid m then getParsedContent env (getText m) else []),
             emitted := emitted s @
               (if prefChanges env (preferences s) (if valid m then getParsedContent env (getText m) else []) \<noteq> []
                then [prefChanges env (preferences s) (if valid m then getParsedContent env (getText m) else [])]
                else [])\<rparr>"
proof -
  let ?s1 = "s\<lparr>model := Some (m\<lparr>dirty := False\<rparr>), disk := getText m\<rparr>"
  have "modelSaved env s = readPreferences env ?s1"
    using assms by (simp add: modelSaved_def Let_def)
  also have "\<dots> = ?s1\<lparr>preferences := (if valid (m\<lparr>dirty := False\<rparr>) then getParsedContent env (getText (m\<lparr>dirty := False\<rparr>)) else []),
             emitted := emitted ?s1 @
               (if prefChanges env (preferences ?s1) (if valid (m\<lparr>dirty := False\<rparr>) then getParsedContent env (getText (m\<lparr>dirty := False\<rparr>)) else []) \<noteq> []
                then [prefChanges env (preferences ?s1) (if valid (m\<lparr>dirty := False\<rparr>) then getParsedContent env (getText (m\<lparr>dirty := False\<rparr>)) else [])]
                else [])\<rparr>"
    by (rule readPreferences_clean) simp_all
  finally show ?thesis by simp
qed

lemma fire_SaveSettled_transaction:
  assumes "pendingSaves s = [SaveOfTransaction t]" "fileEditLock s = newLockQueue\<lparr>busy := True\<rparr>"
    "model s = Some m" "dirty m"
  shows "fire env s (SaveSettled r) =
     (case r of
        None \<Rightarrow> s\<lparr>pendingSaves := [], fileEditLock := newLockQueue,
                  localPendingChanges := (localPendingChanges s)(t := Some False)\<rparr>
      | Some b \<Rightarrow>
          s\<lparr>pendingSaves := [], fileEditLock := newLockQueue,
            localPendingChanges := (localPendingChanges s)(t := Some b),
            model := Some (m\<lparr>dirty := False\<rparr>), disk := getText m,
            preferences := (if valid m then getParsedContent env (getText m) else []),
            emitted := emitted s @
               (if prefChanges env (preferences s) (if valid m then getParsedContent env (getText m) else []) \<noteq> []
                then [prefChanges env (preferences s) (if valid m then getParsedContent env (getText m) else [])]
                else [])\<rparr>)"
proof (cases r)
  case None
  then show ?thesis
    using assms
    by (simp add: run.simps doSetPreferences_end_def release_def newLockQueue_def)
next
  case (Some b)
  have ms: "modelSaved env (s\<lparr>pendingSaves := []\<rparr>) =
           s\<lparr>pendingSaves := [], model := Some (m\<lparr>dirty := False\<rparr>), disk := getText m,
             preferences := (if valid m then getParsedContent env (getText m) else []),
             emitted := emitted s @
               (if prefChanges env (preferences s) (if valid m then getParsedContent env (getText m) else []) \<noteq> []
                then [prefChanges env (preferences s) (if valid m then getParsedContent env (getText m) else [])]
                else [])\<rparr>"
    using modelSaved_dirty [of "s\<lparr>pendingSaves := []\<rparr>" m env] assms(3,4) by simp
  show ?thesis
    using assms(1,2)
    by (simp add: Some ms run.simps doSetPreferences_end_def release_def newLockQueue_def)
qed


subsection \<open>An event of overlapping calls\<close>

lemma queued_writes_entries [simp]: "queued_writes (entries n cs) = called_writes cs"
  by (induction n cs rule: entries.induct) (simp_all add: queued_writes_def called_writes_def)

lemma editResolver_entries: "map editResolver (entries n cs) = [n..<n + length cs]"
  by (induction n cs rule: entries.induct) (simp_all add: upt_rec)

lemma length_entries [simp]: "length (entries n cs) = length cs"
  by (induction n cs rule: entries.induct) simp_all

lemma editResolver_entries_nth:
  "i < length cs \<Longrightarrow> editResolver (entries n cs ! i) = n + i"
  using editResolver_entries [of n cs] nth_map [of i "entries n cs" editResolver]
  by simp

lemma mark_mark [simp]: "mark n len x (mark n len y f) = mark n len x f"
  by (auto simp: mark_def fun_eq_iff)

lemma mark_upd_Suc: "mark (Suc n) len x (f(n := x)) = mark n (Suc len) x f"
  by (rule mark_Suc)

lemma run_free_clean:
  assumes r: "editQueue s = []" "fileEditLock s = newLockQueue" "0 < gateResolves s"
    and m: "model s = Some m" "\<not> dirty m" and ne: "cs \<noteq> []"
  shows "run env (free_tasks n cs) s = settle (nextTransaction s) (drained_from env n cs s)"
proof -
  obtain k v u cs' where cs: "cs = (k, v, u) # cs'"
    using ne by (cases cs) auto
  let ?t = "nextTransaction s"
  let ?s1 = "s\<lparr>editQueue := [\<lparr>key = k, val = v, editResolver = n\<rparr>],
                 results := (results s)(n := Unresolved),
                 nextTransaction := ?t + 1,
                 localPendingChanges := (localPendingChanges s)(?t := None)\<rparr>"
  let ?s2 = "?s1\<lparr>editQueue := editQueue ?s1 @ entries (Suc n) cs',
                 results := mark (Suc n) (length cs') Unresolved (results ?s1)\<rparr>"
  have "run env (free_tasks n cs) s = run env (free_tasks (Suc n) cs' @ [DoSetPreferences_handled ?t]) ?s1"
    using exec_free_first_clean [of s m env n k v] r m
    by (simp add: cs run.simps)
  also have "\<dots> = run env [DoSetPreferences_handled ?t] ?s2"
    by (rule run_free_queued) simp
  also have "\<dots> = settle ?t (fold (applyQueued env ?t) (entries n cs) (?s2\<lparr>editQueue := []\<rparr>))"
    by (rule run_handled) (simp_all add: cs r)
  also have "?s2\<lparr>editQueue := []\<rparr> =
               s\<lparr>nextTransaction := ?t + 1,
                 localPendingChanges := (localPendingChanges s)(?t := None),
                 results := mark n (length cs) Unresolved (results s)\<rparr>" (is "_ = ?s3")
    using r by (simp add: cs mark_Suc)
  also have "fold (applyQueued env ?t) (entries n cs) ?s3 = drained_from env n cs s"
    by (simp add: fold_applyQueued drained_from_def)
  finally show ?thesis .
qed

lemma run_free_dirty:
  assumes r: "editQueue s = []" and m: "model s = Some m" "dirty m" and ne: "cs \<noteq> []"
  shows "run env (free_tasks n cs) s = prompted_from n cs s"
proof -
  obtain k v u cs' where cs: "cs = (k, v, u) # cs'"
    using ne by (cases cs) auto
  let ?s1 = "s\<lparr>editQueue := [\<lparr>key = k, val = v, editResolver = n\<rparr>],
              results := (results s)(n := Unresolved),
              dirtyEditorHandled := dirtyEditorHandled s + 1,
              gateResolves := 0,
              promptsShown := promptsShown s + 1,
              pendingPrompts := pendingPrompts s + 1,
              nextTransaction := nextTransaction s + 1,
              localPendingChanges := (localPendingChanges s)(nextTransaction s := None),
              gateWaiters := gateWaiters s @ [(dirtyEditorHandled s + 1, nextTransaction s)]\<rparr>"
  have "run env (free_tasks n cs) s = run env (free_tasks (Suc n) cs' @ []) ?s1"
    using exec_free_first_dirty [of s m env n k v] r m
    by (simp add: cs run.simps)
  also have "\<dots> = run env [] (?s1\<lparr>editQueue := editQueue ?s1 @ entries (Suc n) cs',
                 results := mark (Suc n) (length cs') Unresolved (results ?s1)\<rparr>)"
    by (rule run_free_queued) simp
  finally show ?thesis
    by (simp add: run.simps prompted_from_def cs mark_Suc)
qed

lemma fire_Calls_free:
  assumes "\<not> loadingRejected s" "model s = Some m" "\<not> busy (fileEditLock s)" "in_domain env cs"
  shows "fire env s (Calls cs) =
         run env (free_tasks (nextCall s) cs)
           (s\<lparr>nextCall := nextCall s + length cs,
              results := mark (nextCall s) (length cs) Running (results s)\<rparr>)"
proof -
  let ?s0 = "s\<lparr>nextCall := nextCall s + length cs, results := mark (nextCall s) (length cs) Running (results s)\<rparr>"
  have "fire env s (Calls cs) = run env (loaded_tasks (nextCall s) cs @ []) ?s0"
    by (simp add: setPreferences_eq)
  also have "\<dots> = run env ([] @ free_tasks (nextCall s) cs) ?s0"
    by (rule run_loaded [of _ m]) (simp_all add: assms)
  finally show ?thesis by simp
qed


lemma fire_Calls_dirty:
  assumes rest: "at_rest s" and m: "model s = Some m" "dirty m"
    and dom: "in_domain env cs" and ne: "cs \<noteq> []"
  shows "fire env s (Calls cs) = prompted_from (nextCall s) cs (s\<lparr>nextCall := nextCall s + length cs\<rparr>)"
proof -
  have r: "\<not> loadingRejected s" "editQueue s = []" "0 < gateResolves s" "fileEditLock s = newLockQueue"
    using rest by (simp_all add: at_rest_def)
  let ?s0 = "s\<lparr>nextCall := nextCall s + length cs, results := mark (nextCall s) (length cs) Running (results s)\<rparr>"
  have "fire env s (Calls cs) = run env (free_tasks (nextCall s) cs) ?s0"
    by (rule fire_Calls_free [of _ m]) (simp_all add: r m dom newLockQueue_def)
  also have "\<dots> = prompted_from (nextCall s) cs ?s0"
    by (rule run_free_dirty [of _ m]) (simp_all add: r m ne)
  finally show ?thesis
    by (simp add: prompted_from_def)
qed

lemma fire_Calls_queued:
  assumes "\<not> loadingRejected s" "model s = Some m" "\<not> busy (fileEditLock s)" "in_domain env cs"
    "editQueue s \<noteq> []"
  shows "fire env s (Calls cs) =
           s\<lparr>nextCall := nextCall s + length cs,
             editQueue := editQueue s @ entries (nextCall s) cs,
             results := mark (nextCall s) (length cs) Unresolved (results s)\<rparr>"
proof -
  let ?s0 = "s\<lparr>nextCall := nextCall s + length cs, results := mark (nextCall s) (length cs) Running (results s)\<rparr>"
  have "fire env s (Calls cs) = run env (free_tasks (nextCall s) cs @ []) ?s0"
    using fire_Calls_free [OF assms(1-4)] by simp
  also have "\<dots> = run env [] (?s0\<lparr>editQueue := editQueue ?s0 @ entries (nextCall s) cs,
                 results := mark (nextCall s) (length cs) Unresolved (results ?s0)\<rparr>)"
    by (rule run_free_queued) (simp add: assms(5))
  finally show ?thesis by (simp add: run.simps)
qed


subsection \<open>The document after a batch\<close>




lemma settle_frame [simp]:
  "model (settle t s) = model s"
  "results (settle t s) = results s"
  "disk (settle t s) = disk s"
  "editQueue (settle t s) = editQueue s"
  "errorMessages (settle t s) = errorMessages s"
  "consoleErrors (settle t s) = consoleErrors s"
  "promptsShown (settle t s) = promptsShown s"
  "nextTransaction (settle t s) = nextTransaction s"
  "nextCall (settle t s) = nextCall s"
  "preferences (settle t s) = preferences s"
  by (simp_all add: settle_def callSave_def)

lemma settle_dirty:
  "model s = Some m \<Longrightarrow> dirty m \<Longrightarrow>
   settle t s = s\<lparr>fileEditLock := newLockQueue\<lparr>busy := True\<rparr>, saveCalls := saveCalls s + 1,
                 pendingSaves := pendingSaves s @ [SaveOfTransaction t]\<rparr>"
  by (simp add: settle_def callSave_def)


lemma fire_SaveSettled_none: "pendingSaves s = [] \<Longrightarrow> fire env s (SaveSettled r) = s"
  by simp

lemma fire_all_two: "fire_all env s [e1, e2] = fire env (fire env s e1) e2"
  by (simp add: fire_all_def)

lemma settle_not_dirty:
  "\<not> (case model s of None \<Rightarrow> False | Some m \<Rightarrow> dirty m) \<Longrightarrow>
   settle t s = s\<lparr>localPendingChanges := (localPendingChanges s)(t := Some True)\<rparr>"
  by (simp add: settle_def)

lemma run_handled_eq:
  assumes "fileEditLock s = newLockQueue"
  shows "run env [DoSetPreferences_handled t] s =
     settle t
       (s\<lparr>editQueue := [],
          model := final_model env (model s) (queued_writes (editQueue s)),
          results := drain_results t (editQueue s) (outcomes env (model s) (queued_writes (editQueue s))) (results s),
          errorMessages := errorMessages s
             @ failures env (queued_writes (editQueue s)) (outcomes env (model s) (queued_writes (editQueue s))),
          consoleErrors := consoleErrors s
             + length (failures env (queued_writes (editQueue s)) (outcomes env (model s) (queued_writes (editQueue s))))\<rparr>)"
  using run_handled [OF refl assms, of env t] by (simp add: fold_applyQueued)

lemma length_failures:
  "length outs = length ws \<Longrightarrow> length (failures env ws outs) = length (filter (\<lambda>out. out = EditFailed) outs)"
  by (induction env ws outs rule: failures.induct) simp_all

lemma failures_member:
  "length outs = length ws \<Longrightarrow> i < length ws \<Longrightarrow> outs ! i = EditFailed \<Longrightarrow>
   failedMessage env (fst (ws ! i)) @ '' Please check if it is corrupted.'' \<in> set (failures env ws outs)"
proof (induction env ws outs arbitrary: i rule: failures.induct)
  case (1 env w ws out outs)
  then show ?case by (cases i) auto
qed simp_all

text \<open>The equations that evaluate the provider on an example.\<close>

lemmas machine_eval =
  fire_all_def run.simps setPreference_def setPreference_loaded_def setPreference_free_def
  doSetPreferences_def doSetPreferences_loop_def doSetPreferences_acquired_def doSetPreferences_end_def
  handleDirtyEditor_def handleDirtyEditor_answered_def handleDirtyEditor_end_def
  resolveDirtyEditorHandled_def resolveEdit_def callSave_def
  doSetPreference_def editOperations_def applyBackgroundEdit_def applyOperation_def toOperation_def
  getFullModelRange_def modelEdited_def failedToUpdate_def failedMessage_def modelSaved_def
  readPreferences_def handlePreferenceChanges_def prefChanges_def emitPreferencesChangedEvent_def
  getParsedContent_def parse_def value_changed_def obj_get_def
  acquire_def release_def waitUntilFree_def newLockQueue_def contains_def
  trim_def is_space_def resolved_def Let_def

lemmas sample_eval =
  sample_provider_def sample_env_def sample_modify_def sample_parse_def getPath_def


subsection \<open>Calls that find the queue in use\<close>

lemma entries_append: "entries n (as @ bs) = entries n as @ entries (n + length as) bs"
  by (induction n as rule: entries.induct) simp_all

lemma mark_add: "mark (n + la) lb x (mark n la x f) = mark n (la + lb) x f"
  by (auto simp: mark_def fun_eq_iff)

lemma fire_all_Nil [simp]: "fire_all env s [] = s"
  by (simp add: fire_all_def)

lemma fire_all_Cons: "fire_all env s (e # es) = fire_all env (fire env s e) es"
  by (simp add: fire_all_def)

lemma fire_all_append: "fire_all env s (es @ es') = fire_all env (fire_all env s es) es'"
  by (simp add: fire_all_def)

lemma fire_all_Calls_queued:
  "\<not> loadingRejected s \<Longrightarrow> model s = Some m \<Longrightarrow> \<not> busy (fileEditLock s) \<Longrightarrow> editQueue s \<noteq> [] \<Longrightarrow>
   \<forall>cs \<in> set css. in_domain env cs \<Longrightarrow>
   fire_all env s (map Calls css) =
     s\<lparr>nextCall := nextCall s + length (concat css),
       editQueue := editQueue s @ entries (nextCall s) (concat css),
       results := mark (nextCall s) (length (concat css)) Unresolved (results s)\<rparr>"
proof (induction css arbitrary: s)
  case Nil
  show ?case by simp
next
  case (Cons cs css)
  let ?s1 = "s\<lparr>nextCall := nextCall s + length cs,
             editQueue := editQueue s @ entries (nextCall s) cs,
             results := mark (nextCall s) (length cs) Unresolved (results s)\<rparr>"
  have dom: "in_domain env cs" "\<forall>cs' \<in> set css. in_domain env cs'"
    using Cons.prems(5) by simp_all
  have f: "fire env s (Calls cs) = ?s1"
    using Cons.prems(1-3) dom(1) Cons.prems(4) by (rule fire_Calls_queued)
  have "fire_all env s (map Calls (cs # css)) = fire_all env ?s1 (map Calls css)"
    by (simp only: list.map fire_all_Cons f)
  also have "\<dots> = ?s1\<lparr>nextCall := nextCall ?s1 + length (concat css),
       editQueue := editQueue ?s1 @ entries (nextCall ?s1) (concat css),
       results := mark (nextCall ?s1) (length (concat css)) Unresolved (results ?s1)\<rparr>"
    by (rule Cons.IH [of ?s1]) (simp_all add: Cons.prems dom)
  finally show ?case
    by (simp add: entries_append mark_add add.assoc)
qed


lemma called_writes_append: "called_writes (as @ bs) = called_writes as @ called_writes bs"
  by (simp add: called_writes_def)

lemma queued_writes_append: "queued_writes (as @ bs) = queued_writes as @ queued_writes bs"
  by (simp add: queued_writes_def)

lemma fire_all_Calls_dirty:
  assumes rest: "at_rest s" and m: "model s = Some m" "dirty m"
    and dom: "in_domain env cs" "\<forall>cs' \<in> set css. in_domain env cs'" and ne: "cs \<noteq> []"
  shows "fire_all env s (Calls cs # map Calls css) = prompted cs css s"
proof -
  let ?s1 = "prompted_from (nextCall s) cs (s\<lparr>nextCall := nextCall s + length cs\<rparr>)"
  have r: "\<not> loadingRejected s" "fileEditLock s = newLockQueue"
    using rest by (simp_all add: at_rest_def)
  have f: "fire env s (Calls cs) = ?s1"
    using rest m dom(1) ne by (rule fire_Calls_dirty)
  have "fire_all env s (Calls cs # map Calls css) = fire_all env ?s1 (map Calls css)"
    by (simp only: fire_all_Cons f)
  also have "\<dots> = ?s1\<lparr>nextCall := nextCall ?s1 + length (concat css),
       editQueue := editQueue ?s1 @ entries (nextCall ?s1) (concat css),
       results := mark (nextCall ?s1) (length (concat css)) Unresolved (results ?s1)\<rparr>"
  proof (rule fire_all_Calls_queued [of _ m])
    show "\<not> loadingRejected ?s1" by (simp add: prompted_from_def r)
    show "model ?s1 = Some m" by (simp add: prompted_from_def m)
    show "\<not> busy (fileEditLock ?s1)" by (simp add: prompted_from_def r newLockQueue_def)
    show "editQueue ?s1 \<noteq> []" using ne by (cases cs) (auto simp: prompted_from_def)
    show "\<forall>cs' \<in> set css. in_domain env cs'" by (rule dom(2))
  qed
  also have "\<dots> = prompted cs css s"
    by (simp add: prompted_from_def prompted_def entries_append mark_add add.assoc)
  finally show ?thesis .
qed


subsection \<open>The prompt is answered\<close>

lemma fold_resolveEdit_entries:
  "\<forall>c. n \<le> c \<and> c < n + length cs \<longrightarrow> results s c = Unresolved \<Longrightarrow>
   fold (\<lambda>e. resolveEdit (editResolver e) x) (entries n cs) s
     = s\<lparr>results := mark n (length cs) x (results s)\<rparr>"
proof (induction n cs arbitrary: s rule: entries.induct)
  case (1 n)
  show ?case by simp
next
  case (2 n k v u cs)
  let ?s1 = "s\<lparr>results := (results s)(n := x)\<rparr>"
  have "resolveEdit n x s = ?s1"
    using "2.prems" by (simp add: resolveEdit_def)
  then have "fold (\<lambda>e. resolveEdit (editResolver e) x) (entries n ((k, v, u) # cs)) s
             = fold (\<lambda>e. resolveEdit (editResolver e) x) (entries (Suc n) cs) ?s1"
    by simp
  also have "\<dots> = ?s1\<lparr>results := mark (Suc n) (length cs) x (results ?s1)\<rparr>"
    by (rule "2.IH") (use "2.prems" in simp)
  finally show ?case by (simp add: mark_Suc)
qed

lemma fire_PromptAnswered_declined:
  assumes rest: "at_rest s" and m: "model s = Some m" "dirty m"
    and msg: "msg \<noteq> Some ''Save and Retry''"
  shows "fire env (prompted cs css s) (PromptAnswered msg) = declined msg cs css s"
proof -
  let ?n = "nextCall s" and ?N = "length (cs @ concat css)" and ?t = "nextTransaction s"
  let ?P = "prompted cs css s"
  have r: "editQueue s = []" "fileEditLock s = newLockQueue" "gateWaiters s = []"
    "pendingPrompts s = 0" "pendingSaves s = []"
    using rest by (simp_all add: at_rest_def)
  define X where "X = (?P\<lparr>pendingPrompts := 0\<rparr>)\<lparr>openedFiles := openedFiles s + (if msg = Some ''Open File'' then 1 else 0)\<rparr>"
  have X: "editQueue X = entries ?n (cs @ concat css)" "results X = mark ?n ?N Unresolved (results s)"
    "gateResolves X = 0" "gateWaiters X = [(dirtyEditorHandled s + 1, ?t)]"
    "dirtyEditorHandled X = dirtyEditorHandled s + 1"
    by (simp_all add: X_def prompted_def r)
  have "fold (\<lambda>e. resolveEdit (editResolver e) ResolvedFalse) (entries ?n (cs @ concat css)) X
              = X\<lparr>results := mark ?n ?N ResolvedFalse (results X)\<rparr>"
    by (rule fold_resolveEdit_entries) (simp add: X(2) mark_def)
  then have fold: "fold (\<lambda>e. resolveEdit (editResolver e) ResolvedFalse) (entries ?n (cs @ concat css)) X
              = X\<lparr>results := mark ?n ?N ResolvedFalse (results s)\<rparr>"
    by (simp add: X(2))
  define Y where "Y = X\<lparr>results := mark ?n ?N ResolvedFalse (results s), editQueue := [],
                       gateResolves := 1, gateWaiters := []\<rparr>"
  have "exec env (HandleDirtyEditor_answered msg) (?P\<lparr>pendingPrompts := 0\<rparr>) = handleDirtyEditor_end msg X"
    using m msg by (simp add: handleDirtyEditor_answered_def prompted_def X_def)
  also have "\<dots> = ([DoSetPreferences_handled ?t], Y)"
    using msg
    by (simp add: handleDirtyEditor_end_def Let_def fold resolveDirtyEditorHandled_def X Y_def)
  finally have "fire env ?P (PromptAnswered msg) = run env [DoSetPreferences_handled ?t] Y"
    by (simp add: run.simps prompted_def r)
  also have "\<dots> = settle ?t Y"
    by (rule run_handled_Nil) (simp_all add: Y_def X_def prompted_def r)
  also have "\<dots> = Y\<lparr>fileEditLock := newLockQueue\<lparr>busy := True\<rparr>, saveCalls := saveCalls Y + 1,
                 pendingSaves := pendingSaves Y @ [SaveOfTransaction ?t]\<rparr>"
    by (rule settle_dirty [of _ m]) (simp_all add: Y_def X_def prompted_def m)
  also have "\<dots> = declined msg cs css s"
    by (simp add: Y_def X_def prompted_def declined_def r)
  finally show ?thesis .
qed


subsection \<open>A call that finds the lock held\<close>

lemma fire_Calls_parked:
  assumes "\<not> loadingRejected s" "model s = Some m" "contains env u"
    "fileEditLock s = newLockQueue\<lparr>busy := True\<rparr>"
  shows "fire env s (Calls [(k, v, u)]) =
           s\<lparr>nextCall := nextCall s + 1,
             results := (results s)(nextCall s := Running),
             fileEditLock := \<lparr>queue = [], busy = True, onFree = [(nextCall s, k, v)]\<rparr>\<rparr>"
  using assms
  by (simp add: setPreference_def Let_def run.simps setPreference_loaded_def waitUntilFree_def newLockQueue_def)

lemma modelSaved_frame [simp]:
  "editQueue (modelSaved env s) = editQueue s"
  "fileEditLock (modelSaved env s) = fileEditLock s"
  "localPendingChanges (modelSaved env s) = localPendingChanges s"
  "results (modelSaved env s) = results s"
  "nextTransaction (modelSaved env s) = nextTransaction s"
  "nextCall (modelSaved env s) = nextCall s"
  "gateResolves (modelSaved env s) = gateResolves s"
  "gateWaiters (modelSaved env s) = gateWaiters s"
  "dirtyEditorHandled (modelSaved env s) = dirtyEditorHandled s"
  "pendingSaves (modelSaved env s) = pendingSaves s"
  "pendingPrompts (modelSaved env s) = pendingPrompts s"
  "promptsShown (modelSaved env s) = promptsShown s"
  "saveCalls (modelSaved env s) = saveCalls s"
  "loadingRejected (modelSaved env s) = loadingRejected s"
  "errorMessages (modelSaved env s) = errorMessages s"
  "consoleErrors (modelSaved env s) = consoleErrors s"
  by (simp_all add: modelSaved_def Let_def readPreferences_def handlePreferenceChanges_def
      emitPreferencesChangedEvent_def split: option.splits)

lemma modelSaved_model:
  "model s = Some m \<Longrightarrow> model (modelSaved env s) = Some (m\<lparr>dirty := False\<rparr>)"
  by (simp add: modelSaved_def Let_def readPreferences_def handlePreferenceChanges_def
      emitPreferencesChangedEvent_def)

lemma fire_SaveSettled_waiter:
  assumes "pendingSaves s = [SaveOfTransaction t]"
    "fileEditLock s = \<lparr>queue = [], busy = True, onFree = [(c, k, v)]\<rparr>"
  shows "fire env s (SaveSettled None) =
     run env (free_tasks c [(k, v, u)])
       (s\<lparr>pendingSaves := [], fileEditLock := newLockQueue,
          localPendingChanges := (localPendingChanges s)(t := Some False)\<rparr>)"
    and "fire env s (SaveSettled (Some b)) =
     run env (free_tasks c [(k, v, u)])
       ((modelSaved env (s\<lparr>pendingSaves := []\<rparr>))
          \<lparr>fileEditLock := newLockQueue,
           localPendingChanges := (localPendingChanges s)(t := Some b)\<rparr>)"
  using assms
  by (simp_all add: run_single [of env "DoSetPreferences_saved t r" for r]
      doSetPreferences_end_def release_def newLockQueue_def)


subsection \<open>One call on a clean document\<close>





subsection \<open>The edits of the differ in the document\<close>














section \<open>Overlapping calls are saved together\<close>




subsection \<open>Calls and documents that the amended claim does not cover\<close>

text \<open>
  A call made while the save of a run is in progress waits for the lock
  (\<^verbatim>\<open>await this.fileEditLock.waitUntilFree()\<close>, "Wait for save of previous transaction") and
  starts a run of its own when the lock is released; its edit is saved by a second save and no
  prompt is shown. The calls that share one save are the calls whose changes one run takes
  from the queue.
\<close>

lemma call_during_the_save_waits_for_the_lock:
  \<open>saveCalls (fire_all sample_env (sample_provider ''{}'' False [])
       [Calls [(''a'', Some (Num 1), None)], Calls [(''b'', Some (Num 2), None)]]) = 1 \<and>
   results (fire_all sample_env (sample_provider ''{}'' False [])
       [Calls [(''a'', Some (Num 1), None)], Calls [(''b'', Some (Num 2), None)]]) 1 = Running \<and>
   promptsShown (fire_all sample_env (sample_provider ''{}'' False [])
       [Calls [(''a'', Some (Num 1), None)], Calls [(''b'', Some (Num 2), None)],
        SaveSettled (Some True), SaveSettled (Some True)]) = 0 \<and>
   saveCalls (fire_all sample_env (sample_provider ''{}'' False [])
       [Calls [(''a'', Some (Num 1), None)], Calls [(''b'', Some (Num 2), None)],
        SaveSettled (Some True), SaveSettled (Some True)]) = 2 \<and>
   disk (fire_all sample_env (sample_provider ''{}'' False [])
       [Calls [(''a'', Some (Num 1), None)], Calls [(''b'', Some (Num 2), None)],
        SaveSettled (Some True), SaveSettled (Some True)]) = ''{"a": 1, "b": 2}''\<close>
  by (simp add: machine_eval sample_eval)

text \<open>
  A call made after the run has taken the last change from the queue and before it holds the
  lock: the first call has passed \<^verbatim>\<open>await this.fileEditLock.waitUntilFree()\<close> when the second
  has passed \<^verbatim>\<open>await this.loading.promise\<close>, as when the caller awaits once between the two
  calls. The run takes the only change from the queue and edits the document before the second
  call looks at the queue; the second call finds the queue empty and the document dirty from
  that edit, and shows the prompt. When the user answers \<open>Save and Retry\<close>, the document has
  been saved twice. The comment in \<^verbatim>\<open>setPreference\<close> says that the wait for the lock is there
  "to prevent false positives on model.dirty"; here the lock is not held yet.
\<close>

lemma call_during_the_run_finds_its_edit_dirty:
  \<open>promptsShown (run sample_env
       [SetPreference_free 0 ''a'' (Some (Num 1)), SetPreference_loaded 1 ''b'' (Some (Num 2)) None]
       (sample_provider ''{}'' False [])) = 1 \<and>
   saveCalls (fire_all sample_env
       (run sample_env
          [SetPreference_free 0 ''a'' (Some (Num 1)), SetPreference_loaded 1 ''b'' (Some (Num 2)) None]
          (sample_provider ''{}'' False []))
       [SaveSettled (Some True), PromptAnswered (Some ''Save and Retry'')]) = 2\<close>
  by (simp add: machine_eval sample_eval)

text \<open>
  A document that begins with white space: the differ is given the trimmed text, and
  \<^verbatim>\<open>doSetPreference\<close> applies the edits at the offsets it returns in the text of the document.
  In the document \<open>{"a": 1}\<close> after two spaces, the edit that sets \<open>a\<close> to 3 replaces the colon;
  the call resolves to \<^verbatim>\<open>true\<close>.
\<close>

lemma leading_white_space_shifts_the_edit:
  \<open>disk (fire_all sample_env (sample_provider ''  {"a": 1}'' False [(''a'', Num 1)])
            [Calls [(''a'', Some (Num 3), None)], SaveSettled (Some True)])
     = ''  {"a"3 1}'' \<and>
   resolved (fire_all sample_env (sample_provider ''  {"a": 1}'' False [(''a'', Num 1)])
            [Calls [(''a'', Some (Num 3), None)], SaveSettled (Some True)]) 0 = Some True\<close>
  by (simp add: machine_eval sample_eval)


section \<open>One outcome for the writes of one run\<close>

text \<open>
  Claim C2. Let a run \<open>t\<close> of \<^verbatim>\<open>doSetPreferences\<close> start its loop with the lock free, no save
  pending, and a queue of changes whose promises are unresolved. Every change of the queue
  whose edit applies cleanly (\<^verbatim>\<open>doSetPreference\<close> returns \<^verbatim>\<open>true\<close>) is resolved with the
  one promise \<^verbatim>\<open>localPendingChanges\<close> of the run, and once the save of the run has settled
  all these calls have resolved to the same value: the outcome of the run, which is
  \<^verbatim>\<open>true\<close> when the document needed no save, the value reported after the save when it
  was saved, and \<^verbatim>\<open>false\<close> when the save threw.
\<close>

theorem queued_writes_share_the_outcome_of_their_run:
  assumes "fileEditLock s = newLockQueue" "pendingSaves s = []"
    "distinct (map editResolver (editQueue s))"
    "\<forall>e \<in> set (editQueue s). results s (editResolver e) = Unresolved"
  shows "\<forall>i < length (editQueue s).
           edit_ok (outcomes env (model s) (queued_writes (editQueue s)) ! i) \<longrightarrow>
             results (run env [DoSetPreferences_handled t] s) (editResolver (editQueue s ! i))
               = ResolvedWith t \<and>
             resolved (fire env (run env [DoSetPreferences_handled t] s) (SaveSettled r))
                 (editResolver (editQueue s ! i))
               = Some (transaction_outcome (final_model env (model s) (queued_writes (editQueue s))) r)"
proof -
  let ?q = "editQueue s"
  let ?ws = "queued_writes ?q"
  let ?outs = "outcomes env (model s) ?ws"
  let ?mo = "final_model env (model s) ?ws"
  define d where "d =
       s\<lparr>editQueue := [],
          model := ?mo,
          results := drain_results t ?q ?outs (results s),
          errorMessages := errorMessages s @ failures env ?ws ?outs,
          consoleErrors := consoleErrors s + length (failures env ?ws ?outs)\<rparr>"
  define s1 where "s1 = run env [DoSetPreferences_handled t] s"
  define s2 where "s2 = fire env s1 (SaveSettled r)"
  have s1: "s1 = settle t d"
    unfolding s1_def d_def using assms(1) by (rule run_handled_eq)
  have dm: "model d = ?mo" "pendingSaves d = []" "results d = drain_results t ?q ?outs (results s)"
    by (simp_all add: d_def assms(2))
  have res1: "results s1 = drain_results t ?q ?outs (results s)"
    by (simp add: s1 dm)
  have len: "length ?outs = length ?q" by (simp add: queued_writes_def)
  have shared: "localPendingChanges s2 t = Some (transaction_outcome ?mo r) \<and> results s2 = results s1"
  proof (cases "case ?mo of None \<Rightarrow> False | Some m \<Rightarrow> dirty m")
    case True
    then obtain m' where m': "?mo = Some m'" "dirty m'"
      by (auto split: option.splits)
    have md: "model d = Some m'" using dm(1) m'(1) by simp
    have s1': "s1 = d\<lparr>fileEditLock := newLockQueue\<lparr>busy := True\<rparr>, saveCalls := saveCalls d + 1,
                 pendingSaves := pendingSaves d @ [SaveOfTransaction t]\<rparr>"
      unfolding s1 using md m'(2) by (rule settle_dirty)
    have pre: "pendingSaves s1 = [SaveOfTransaction t]" "fileEditLock s1 = newLockQueue\<lparr>busy := True\<rparr>"
      "model s1 = Some m'"
      by (simp_all add: s1' dm(2) md)
    show ?thesis
      unfolding s2_def
      by (subst (1 2) fire_SaveSettled_transaction [OF pre m'(2)])
         (simp add: transaction_outcome_def m' split: option.splits)
  next
    case False
    have s1': "s1 = d\<lparr>localPendingChanges := (localPendingChanges d)(t := Some True)\<rparr>"
      unfolding s1 using False dm(1) by (intro settle_not_dirty) simp
    have "pendingSaves s1 = []" by (simp add: s1' dm(2))
    then have "s2 = s1" unfolding s2_def by (rule fire_SaveSettled_none)
    then show ?thesis
      using False by (simp add: s1' transaction_outcome_def split: option.splits)
  qed
  have "results s1 (editResolver (?q ! i)) = ResolvedWith t \<and>
        resolved s2 (editResolver (?q ! i)) = Some (transaction_outcome ?mo r)"
    if i: "i < length ?q" and ok: "edit_ok (?outs ! i)" for i
  proof -
    have "drain_results t ?q ?outs (results s) (editResolver (?q ! i)) = resolution t (?outs ! i)"
      using assms(3,4) len i by (rule drain_results_nth)
    then have r1: "results s1 (editResolver (?q ! i)) = ResolvedWith t"
      using ok by (simp add: res1 resolution_def)
    then show ?thesis
      using shared by (simp add: resolved_def)
  qed
  then show ?thesis
    unfolding s2_def s1_def by blast
qed

text \<open>
  The changes \<open>a = 1\<close> and \<open>b = 2\<close> on the document \<open>{}\<close>: both calls resolve to \<^verbatim>\<open>true\<close>
  when the save succeeds and both to \<^verbatim>\<open>false\<close> when it throws. The same two changes made by
  two overlapping calls: one save, both calls resolve to \<^verbatim>\<open>true\<close>, and the snapshot holds
  both preferences.
\<close>

theorem queued_writes_share_the_outcome_of_their_run_witness:
  \<open>map (resolved (fire sample_env (run sample_env [DoSetPreferences_handled 0] sample_pair)
                     (SaveSettled (Some True)))) [0, 1] = [Some True, Some True] \<and>
   map (resolved (fire sample_env (run sample_env [DoSetPreferences_handled 0] sample_pair)
                     (SaveSettled None))) [0, 1] = [Some False, Some False] \<and>
   map (resolved (fire_all sample_env (sample_provider ''{}'' False [])
                     [Calls [(''a'', Some (Num 1), None), (''b'', Some (Num 2), None)],
                      SaveSettled (Some True)])) [0, 1] = [Some True, Some True] \<and>
   saveCalls (fire_all sample_env (sample_provider ''{}'' False [])
                     [Calls [(''a'', Some (Num 1), None), (''b'', Some (Num 2), None)],
                      SaveSettled (Some True)]) = 1 \<and>
   preferences (fire_all sample_env (sample_provider ''{}'' False [])
                     [Calls [(''a'', Some (Num 1), None), (''b'', Some (Num 2), None)],
                      SaveSettled (Some True)]) = [(''a'', Num 1), (''b'', Num 2)]\<close>
proof -
  have h: "fileEditLock sample_pair = newLockQueue" "pendingSaves sample_pair = []"
    "distinct (map editResolver (editQueue sample_pair))"
    "\<forall>e \<in> set (editQueue sample_pair). results sample_pair (editResolver e) = Unresolved"
    by (simp_all add: sample_pair_def sample_provider_def)
  have direct: \<open>map (resolved (fire sample_env (run sample_env [DoSetPreferences_handled 0] sample_pair)
                     (SaveSettled (Some True)))) [0, 1] = [Some True, Some True] \<and>
   map (resolved (fire sample_env (run sample_env [DoSetPreferences_handled 0] sample_pair)
                     (SaveSettled None))) [0, 1] = [Some False, Some False] \<and>
   map (resolved (fire_all sample_env (sample_provider ''{}'' False [])
                     [Calls [(''a'', Some (Num 1), None), (''b'', Some (Num 2), None)],
                      SaveSettled (Some True)])) [0, 1] = [Some True, Some True] \<and>
   saveCalls (fire_all sample_env (sample_provider ''{}'' False [])
                     [Calls [(''a'', Some (Num 1), None), (''b'', Some (Num 2), None)],
                      SaveSettled (Some True)]) = 1 \<and>
   preferences (fire_all sample_env (sample_provider ''{}'' False [])
                     [Calls [(''a'', Some (Num 1), None), (''b'', Some (Num 2), None)],
                      SaveSettled (Some True)]) = [(''a'', Num 1), (''b'', Num 2)]\<close>
    by (simp add: sample_pair_def machine_eval sample_eval)
  show ?thesis
    by (rule conjunct2 [OF conjI [OF queued_writes_share_the_outcome_of_their_run
                                      [OF h, of sample_env 0 "Some True"] direct]])
qed


section \<open>Waiting until the lock is free\<close>

text \<open>
  Claim C3. \<^verbatim>\<open>waitUntilFree\<close> on a lock that is not held returns a resolved promise and
  leaves the lock as it is. On a lock that is held it registers the caller and changes
  neither \<^verbatim>\<open>busy\<close> nor the wait list, so it never takes the lock. The caller is then
  called by the first release that finds the wait list empty, the one that frees the lock:
  a release that hands the lock to a waiter calls nobody and leaves the caller registered,
  and in every later history of the lock the caller has been called exactly when the lock
  has been free at some moment. \<^verbatim>\<open>setPreference\<close> awaits \<^verbatim>\<open>waitUntilFree\<close> before it touches
  the edit queue: with the lock held the call is registered and nothing else changes, with
  the lock free the call goes on, one task later, to the part that queues the edit.
\<close>

theorem waitUntilFree_resolves_when_fully_free:
  "(\<not> busy L \<longrightarrow> waitUntilFree h L = (True, L)) \<and>
   (busy L \<longrightarrow>
      waitUntilFree h L = (False, L\<lparr>onFree := onFree L @ [h]\<rparr>) \<and>
      (queue L \<noteq> [] \<longrightarrow>
         fst (snd (release (snd (waitUntilFree h L)))) = [] \<and>
         h \<in> set (onFree (snd (snd (release (snd (waitUntilFree h L))))))) \<and>
      (queue L = [] \<longrightarrow>
         h \<in> set (fst (snd (release (snd (waitUntilFree h L))))) \<and>
         \<not> busy (snd (snd (release (snd (waitUntilFree h L)))))) \<and>
      (\<forall>cs. h \<in> set (notified (snd (waitUntilFree h L)) cs) \<longleftrightarrow>
            (\<exists>n \<le> length cs. \<not> busy (foldl lock_step (snd (waitUntilFree h L)) (take n cs))))) \<and>
   (\<not> loadingRejected s \<and> model s \<noteq> None \<and> contains env resourceUri \<longrightarrow>
      (busy (fileEditLock s) \<longrightarrow>
         exec env (SetPreference_loaded c k v resourceUri) s =
           ([], s\<lparr>fileEditLock := (fileEditLock s)\<lparr>onFree := onFree (fileEditLock s) @ [(c, k, v)]\<rparr>\<rparr>)) \<and>
      (\<not> busy (fileEditLock s) \<longrightarrow>
         exec env (SetPreference_loaded c k v resourceUri) s = ([SetPreference_free c k v], s)))"
proof -
  have hist: "h \<in> set (notified (snd (waitUntilFree h L)) cs) \<longleftrightarrow>
              (\<exists>n \<le> length cs. \<not> busy (foldl lock_step (snd (waitUntilFree h L)) (take n cs)))"
    if "busy L" for cs
    by (rule notified_iff_freed) (simp_all add: waitUntilFree_def that)
  have lock: "busy L \<longrightarrow>
      waitUntilFree h L = (False, L\<lparr>onFree := onFree L @ [h]\<rparr>) \<and>
      (queue L \<noteq> [] \<longrightarrow>
         fst (snd (release (snd (waitUntilFree h L)))) = [] \<and>
         h \<in> set (onFree (snd (snd (release (snd (waitUntilFree h L))))))) \<and>
      (queue L = [] \<longrightarrow>
         h \<in> set (fst (snd (release (snd (waitUntilFree h L))))) \<and>
         \<not> busy (snd (snd (release (snd (waitUntilFree h L))))))"
    by (auto simp: waitUntilFree_def release_def split: list.splits)
  have call: "\<not> loadingRejected s \<and> model s \<noteq> None \<and> contains env resourceUri \<longrightarrow>
      (busy (fileEditLock s) \<longrightarrow>
         exec env (SetPreference_loaded c k v resourceUri) s =
           ([], s\<lparr>fileEditLock := (fileEditLock s)\<lparr>onFree := onFree (fileEditLock s) @ [(c, k, v)]\<rparr>\<rparr>)) \<and>
      (\<not> busy (fileEditLock s) \<longrightarrow>
         exec env (SetPreference_loaded c k v resourceUri) s = ([SetPreference_free c k v], s))"
    by (simp add: setPreference_loaded_def waitUntilFree_def)
  show ?thesis
    using hist lock call by (simp add: waitUntilFree_def)
qed

text \<open>
  A lock that is held, with one run waiting in \<^verbatim>\<open>acquire\<close>: \<^verbatim>\<open>waitUntilFree\<close> only registers
  the caller; the first release hands the lock to the run that waits and calls nobody, the
  second one frees the lock and calls the caller. A call of \<^verbatim>\<open>setPreference\<close> that finds the
  lock held is registered the same way and queues no edit.
\<close>

theorem waitUntilFree_resolves_when_fully_free_witness:
  "waitUntilFree (1::nat) \<lparr>queue = [7::nat], busy = True, onFree = []\<rparr>
     = (False, \<lparr>queue = [7], busy = True, onFree = [1]\<rparr>) \<and>
   fst (snd (release \<lparr>queue = [7::nat], busy = True, onFree = [1::nat]\<rparr>)) = [] \<and>
   notified \<lparr>queue = [7::nat], busy = True, onFree = [1::nat]\<rparr> [Release] = [] \<and>
   notified \<lparr>queue = [7::nat], busy = True, onFree = [1::nat]\<rparr> [Release, Release] = [1] \<and>
   exec sample_env (SetPreference_loaded 0 ''a'' (Some (Num 1)) None)
       ((sample_provider ''{}'' True [])\<lparr>fileEditLock := \<lparr>queue = [], busy = True, onFree = []\<rparr>\<rparr>)
     = ([], (sample_provider ''{}'' True [])
             \<lparr>fileEditLock := \<lparr>queue = [], busy = True, onFree = [(0, ''a'', Some (Num 1))]\<rparr>\<rparr>)"
  using waitUntilFree_resolves_when_fully_free
          [of "\<lparr>queue = [7::nat], busy = True, onFree = []\<rparr>" "1::nat"
              "(sample_provider ''{}'' True [])\<lparr>fileEditLock := \<lparr>queue = [], busy = True, onFree = []\<rparr>\<rparr>"
              sample_env None 0 "''a''" "Some (Num 1)"]
  by (simp add: waitUntilFree_def release_def sample_provider_def sample_env_def contains_def)


section \<open>The dirty-editor prompt\<close>

text \<open>
  Claim C4. Let the provider be at rest on a dirty document. After an event of one or more
  calls of \<^verbatim>\<open>setPreference\<close> and any number of further events of such calls, all before the
  user answers, the prompt has been shown once and is still open, the deferred
  \<^verbatim>\<open>dirtyEditorHandled\<close> has been replaced once and is unresolved, one run of
  \<^verbatim>\<open>doSetPreferences\<close> has been started, every write is queued in the order of the calls, and
  nothing has been edited or saved. A call that does not find the queue empty only queues
  its change: it starts no run, replaces no deferred and shows no prompt.
\<close>

theorem dirty_prompt_shown_once_per_batch:
  assumes "at_rest s" "model s = Some m" "dirty m"
    "in_domain env cs" "\<forall>cs' \<in> set css. in_domain env cs'" "cs \<noteq> []"
  shows "promptsShown (fire_all env s (Calls cs # map Calls css)) = promptsShown s + 1 \<and>
         pendingPrompts (fire_all env s (Calls cs # map Calls css)) = 1 \<and>
         dirtyEditorHandled (fire_all env s (Calls cs # map Calls css)) = dirtyEditorHandled s + 1 \<and>
         gateResolves (fire_all env s (Calls cs # map Calls css)) = 0 \<and>
         nextTransaction (fire_all env s (Calls cs # map Calls css)) = nextTransaction s + 1 \<and>
         queued_writes (editQueue (fire_all env s (Calls cs # map Calls css)))
           = called_writes (cs @ concat css) \<and>
         model (fire_all env s (Calls cs # map Calls css)) = Some m \<and>
         saveCalls (fire_all env s (Calls cs # map Calls css)) = saveCalls s \<and>
         (\<forall>s' c k v. editQueue s' \<noteq> [] \<longrightarrow>
            exec env (SetPreference_free c k v) (s' :: 'a Provider)
              = ([], s'\<lparr>editQueue := editQueue s' @ [\<lparr>key = k, val = v, editResolver = c\<rparr>],
                       results := (results s')(c := Unresolved)\<rparr>))"
proof -
  have f: "fire_all env s (Calls cs # map Calls css) = prompted cs css s"
    using assms by (rule fire_all_Calls_dirty)
  have p: "pendingPrompts s = 0"
    using assms(1) by (simp add: at_rest_def)
  have e: "\<forall>s' c k v. editQueue s' \<noteq> [] \<longrightarrow>
            exec env (SetPreference_free c k v) (s' :: 'a Provider)
              = ([], s'\<lparr>editQueue := editQueue s' @ [\<lparr>key = k, val = v, editResolver = c\<rparr>],
                       results := (results s')(c := Unresolved)\<rparr>)"
    by (simp add: setPreference_free_def Let_def)
  show ?thesis
    unfolding f using e by (simp add: prompted_def p assms(2))
qed

text \<open>
  Three events of one call each on a dirty document: one prompt, and the three writes are
  queued in order.
\<close>

theorem dirty_prompt_shown_once_per_batch_witness:
  \<open>promptsShown (fire_all sample_env (sample_provider ''{}'' True [])
      (Calls [(''a'', Some (Num 1), None)]
         # map Calls [[(''b'', Some (Num 2), None)], [(''a'', Some (Num 3), None)]])) = 1 \<and>
   pendingPrompts (fire_all sample_env (sample_provider ''{}'' True [])
      (Calls [(''a'', Some (Num 1), None)]
         # map Calls [[(''b'', Some (Num 2), None)], [(''a'', Some (Num 3), None)]])) = 1 \<and>
   dirtyEditorHandled (fire_all sample_env (sample_provider ''{}'' True [])
      (Calls [(''a'', Some (Num 1), None)]
         # map Calls [[(''b'', Some (Num 2), None)], [(''a'', Some (Num 3), None)]])) = 1 \<and>
   queued_writes (editQueue (fire_all sample_env (sample_provider ''{}'' True [])
      (Calls [(''a'', Some (Num 1), None)]
         # map Calls [[(''b'', Some (Num 2), None)], [(''a'', Some (Num 3), None)]])))
     = [(''a'', Some (Num 1)), (''b'', Some (Num 2)), (''a'', Some (Num 3))]\<close>
proof -
  have h: \<open>at_rest (sample_provider ''{}'' True [])\<close>
    \<open>model (sample_provider ''{}'' True []) = Some \<lparr>getText = ''{}'', dirty = True, valid = True\<rparr>\<close>
    \<open>dirty \<lparr>getText = ''{}'', dirty = True, valid = True\<rparr>\<close>
    \<open>in_domain sample_env [(''a'', Some (Num 1), None)]\<close>
    \<open>\<forall>cs' \<in> set [[(''b'', Some (Num 2), None)], [(''a'', Some (Num 3), None)]]. in_domain sample_env cs'\<close>
    \<open>[(''a'', Some (Num 1), None)] \<noteq> ([] :: sample_value call list)\<close>
    by (simp_all add: at_rest_def sample_provider_def in_domain_def contains_def)
  show ?thesis
    using dirty_prompt_shown_once_per_batch [OF h]
    by (simp add: sample_provider_def called_writes_def)
qed


section \<open>The user declines to save\<close>

text \<open>
  Claim C5. Let the provider be at rest on a dirty document, let calls of \<^verbatim>\<open>setPreference\<close>
  arrive in one or more events, and let the user then answer the prompt with anything but
  \<open>Save and Retry\<close> (\<open>Open File\<close>, or no action: the prompt is dismissed). Then every call
  made so far has resolved to \<^verbatim>\<open>false\<close>, the edit queue is empty, the document is as it was
  and no edit was tried, and the deferred \<^verbatim>\<open>dirtyEditorHandled\<close> of this prompt has been
  resolved once. No new run of \<^verbatim>\<open>doSetPreferences\<close> has been started by then; a call made
  afterwards starts a new one, once the save of the run that waited for the answer has
  settled: the new call is not resolved by the old run, and the calls that were rejected stay
  rejected.
\<close>

theorem declined_prompt_fails_the_queue:
  assumes "at_rest s" "model s = Some m" "dirty m"
    "in_domain env cs" "\<forall>cs' \<in> set css. in_domain env cs'" "cs \<noteq> []"
    "msg \<noteq> Some ''Save and Retry''" "contains env u"
  shows "let evs = Calls cs # map Calls css @ [PromptAnswered msg];
             s2 = fire_all env s evs;
             s3 = fire_all env s (evs @ [Calls [(k, v, u)], SaveSettled r]);
             n = nextCall s;
             N = length (cs @ concat css);
             t = nextTransaction s
         in (\<forall>c. n \<le> c \<and> c < n + N \<longrightarrow> results s2 c = ResolvedFalse) \<and>
            editQueue s2 = [] \<and>
            model s2 = Some m \<and>
            errorMessages s2 = errorMessages s \<and>
            dirtyEditorHandled s2 = dirtyEditorHandled s + 1 \<and>
            gateResolves s2 = 1 \<and>
            nextTransaction s2 = t + 1 \<and>
            nextTransaction s3 = t + 2 \<and>
            results s3 (n + N) \<in> {Unresolved, ResolvedFalse, ResolvedWith (t + 1)} \<and>
            (\<forall>c. n \<le> c \<and> c < n + N \<longrightarrow> results s3 c = ResolvedFalse)"
proof -
  define n where "n = nextCall s"
  define N where "N = length (cs @ concat css)"
  define t where "t = nextTransaction s"
  define D where "D = declined msg cs css s"
  define D1 where "D1 = fire env D (Calls [(k, v, u)])"
  define s3 where "s3 = fire env D1 (SaveSettled r)"
  have r: "\<not> loadingRejected s" "editQueue s = []"
    using assms(1) by (simp_all add: at_rest_def)
  have p: "fire_all env s (Calls cs # map Calls css) = prompted cs css s"
    using assms(1-6) by (rule fire_all_Calls_dirty)
  have s2: "fire_all env s (Calls cs # map Calls css @ [PromptAnswered msg]) = D"
    unfolding D_def
    using fire_PromptAnswered_declined [OF assms(1-3,7), of env cs css]
    by (simp add: fire_all_append [of env s "Calls cs # map Calls css" "[PromptAnswered msg]", simplified] p
        fire_all_Cons [of env _ "PromptAnswered msg" "[]"])
  have s3: "fire_all env s ((Calls cs # map Calls css @ [PromptAnswered msg]) @ [Calls [(k, v, u)], SaveSettled r]) = s3"
  proof -
    have "fire_all env s ((Calls cs # map Calls css @ [PromptAnswered msg]) @ [Calls [(k, v, u)], SaveSettled r])
          = fire_all env (fire_all env s (Calls cs # map Calls css @ [PromptAnswered msg]))
              [Calls [(k, v, u)], SaveSettled r]"
      by (rule fire_all_append)
    also have "\<dots> = fire_all env D [Calls [(k, v, u)], SaveSettled r]"
      by (simp only: s2)
    also have "\<dots> = s3"
      unfolding s3_def D1_def by (rule fire_all_two)
    finally show ?thesis .
  qed
  have D: "nextCall D = n + N" "editQueue D = []" "results D = mark n N ResolvedFalse (results s)"
    "model D = Some m" "errorMessages D = errorMessages s"
    "dirtyEditorHandled D = dirtyEditorHandled s + 1" "gateResolves D = 1"
    "nextTransaction D = t + 1" "\<not> loadingRejected D"
    "fileEditLock D = newLockQueue\<lparr>busy := True\<rparr>" "pendingSaves D = [SaveOfTransaction t]"
    by (simp_all add: D_def declined_def n_def N_def t_def assms(2) r)
  have D1: "D1 = D\<lparr>nextCall := nextCall D + 1,
             results := (results D)(nextCall D := Running),
             fileEditLock := \<lparr>queue = [], busy = True, onFree = [(nextCall D, k, v)]\<rparr>\<rparr>"
    unfolding D1_def using D(9,4) assms(8) D(10) by (rule fire_Calls_parked)
  have D1': "pendingSaves D1 = [SaveOfTransaction t]"
    "fileEditLock D1 = \<lparr>queue = [], busy = True, onFree = [(n + N, k, v)]\<rparr>"
    by (simp_all add: D1 D)
  have old: "results D1 c = ResolvedFalse" if "n \<le> c" "c < n + N" for c
    using that by (simp add: D1 D mark_def)
  have three: "nextTransaction s3 = t + 2 \<and>
               results s3 (n + N) \<in> {Unresolved, ResolvedFalse, ResolvedWith (t + 1)} \<and>
               (\<forall>c. n \<le> c \<and> c < n + N \<longrightarrow> results s3 c = ResolvedFalse)"
  proof (cases r)
    case None
    define Z where "Z = D1\<lparr>pendingSaves := [], fileEditLock := newLockQueue,
          localPendingChanges := (localPendingChanges D1)(t := Some False)\<rparr>"
    have Z: "editQueue Z = []" "model Z = Some m" "nextTransaction Z = t + 1" "results Z = results D1"
      by (simp_all add: Z_def D1 D)
    have "s3 = run env (free_tasks (n + N) [(k, v, u)]) Z"
      unfolding s3_def None Z_def using D1' by (rule fire_SaveSettled_waiter(1))
    also have "\<dots> = prompted_from (n + N) [(k, v, u)] Z"
      using Z(1,2) assms(3) by (rule run_free_dirty) simp
    finally have e: "s3 = prompted_from (n + N) [(k, v, u)] Z" .
    show ?thesis
      using old by (simp add: e prompted_from_def Z mark_def)
  next
    case (Some b)
    define Z where "Z = (modelSaved env (D1\<lparr>pendingSaves := []\<rparr>))
          \<lparr>fileEditLock := newLockQueue,
           localPendingChanges := (localPendingChanges D1)(t := Some b)\<rparr>"
    have Z: "editQueue Z = []" "fileEditLock Z = newLockQueue" "0 < gateResolves Z"
      "nextTransaction Z = t + 1" "results Z = results D1"
      by (simp_all add: Z_def D1 D)
    have Zm: "model Z = Some (m\<lparr>dirty := False\<rparr>)"
      by (simp add: Z_def modelSaved_model [of _ m] D1 D)
    have "s3 = run env (free_tasks (n + N) [(k, v, u)]) Z"
      unfolding s3_def Some Z_def using D1' by (rule fire_SaveSettled_waiter(2))
    also have "\<dots> = settle (nextTransaction Z) (drained_from env (n + N) [(k, v, u)] Z)"
      using Z(1-3) Zm by (rule run_free_clean) simp_all
    finally have e: "s3 = settle (nextTransaction Z) (drained_from env (n + N) [(k, v, u)] Z)" .
    have nt: "nextTransaction s3 = t + 2"
      by (simp add: e drained_from_def Z)
    have new: "results s3 (n + N) \<in> {Unresolved, ResolvedFalse, ResolvedWith (t + 1)}"
      by (simp add: e drained_from_def Z resolve_in_def resolution_def mark_def called_writes_def)
    have keep: "results s3 c = ResolvedFalse" if "n \<le> c" "c < n + N" for c
      using that old [OF that]
      by (simp add: e drained_from_def Z resolve_in_def mark_def called_writes_def)
    show ?thesis using nt new keep by blast
  qed
  have two: "(\<forall>c. n \<le> c \<and> c < n + N \<longrightarrow> results D c = ResolvedFalse) \<and>
            editQueue D = [] \<and> model D = Some m \<and> errorMessages D = errorMessages s \<and>
            dirtyEditorHandled D = dirtyEditorHandled s + 1 \<and> gateResolves D = 1 \<and>
            nextTransaction D = t + 1"
    by (simp add: D mark_def)
  show ?thesis
    unfolding Let_def s2 s3 using two three
    unfolding n_def N_def t_def by blast
qed


theorem declined_prompt_fails_the_queue_witness:
  \<open>map (results (fire_all sample_env (sample_provider ''{}'' True [])
          (Calls [(''a'', Some (Num 1), None)] # map Calls [[(''b'', Some (Num 2), None)]]
             @ [PromptAnswered None]))) [0, 1] = [ResolvedFalse, ResolvedFalse] \<and>
   editQueue (fire_all sample_env (sample_provider ''{}'' True [])
          (Calls [(''a'', Some (Num 1), None)] # map Calls [[(''b'', Some (Num 2), None)]]
             @ [PromptAnswered None])) = [] \<and>
   model (fire_all sample_env (sample_provider ''{}'' True [])
          (Calls [(''a'', Some (Num 1), None)] # map Calls [[(''b'', Some (Num 2), None)]]
             @ [PromptAnswered None])) = Some \<lparr>getText = ''{}'', dirty = True, valid = True\<rparr> \<and>
   gateResolves (fire_all sample_env (sample_provider ''{}'' True [])
          (Calls [(''a'', Some (Num 1), None)] # map Calls [[(''b'', Some (Num 2), None)]]
             @ [PromptAnswered None])) = 1 \<and>
   map (results (fire_all sample_env (sample_provider ''{}'' True [])
          ((Calls [(''a'', Some (Num 1), None)] # map Calls [[(''b'', Some (Num 2), None)]]
             @ [PromptAnswered None])
           @ [Calls [(''a'', Some (Num 1), None)], SaveSettled (Some True)]))) [0, 1, 2]
     = [ResolvedFalse, ResolvedFalse, ResolvedWith 1] \<and>
   nextTransaction (fire_all sample_env (sample_provider ''{}'' True [])
          ((Calls [(''a'', Some (Num 1), None)] # map Calls [[(''b'', Some (Num 2), None)]]
             @ [PromptAnswered None])
           @ [Calls [(''a'', Some (Num 1), None)], SaveSettled (Some True)])) = 2\<close>
proof -
  have h: \<open>at_rest (sample_provider ''{}'' True [])\<close>
    \<open>model (sample_provider ''{}'' True []) = Some \<lparr>getText = ''{}'', dirty = True, valid = True\<rparr>\<close>
    \<open>dirty \<lparr>getText = ''{}'', dirty = True, valid = True\<rparr>\<close>
    \<open>in_domain sample_env [(''a'', Some (Num 1), None)]\<close>
    \<open>\<forall>cs' \<in> set [[(''b'', Some (Num 2), None)]]. in_domain sample_env cs'\<close>
    \<open>[(''a'', Some (Num 1), None)] \<noteq> ([] :: sample_value call list)\<close>
    \<open>None \<noteq> Some ''Save and Retry''\<close>
    \<open>contains sample_env None\<close>
    by (simp_all add: at_rest_def sample_provider_def in_domain_def contains_def)
  have direct: \<open>map (results (fire_all sample_env (sample_provider ''{}'' True [])
          (Calls [(''a'', Some (Num 1), None)] # map Calls [[(''b'', Some (Num 2), None)]]
             @ [PromptAnswered None]))) [0, 1] = [ResolvedFalse, ResolvedFalse] \<and>
   editQueue (fire_all sample_env (sample_provider ''{}'' True [])
          (Calls [(''a'', Some (Num 1), None)] # map Calls [[(''b'', Some (Num 2), None)]]
             @ [PromptAnswered None])) = [] \<and>
   model (fire_all sample_env (sample_provider ''{}'' True [])
          (Calls [(''a'', Some (Num 1), None)] # map Calls [[(''b'', Some (Num 2), None)]]
             @ [PromptAnswered None])) = Some \<lparr>getText = ''{}'', dirty = True, valid = True\<rparr> \<and>
   gateResolves (fire_all sample_env (sample_provider ''{}'' True [])
          (Calls [(''a'', Some (Num 1), None)] # map Calls [[(''b'', Some (Num 2), None)]]
             @ [PromptAnswered None])) = 1 \<and>
   map (results (fire_all sample_env (sample_provider ''{}'' True [])
          ((Calls [(''a'', Some (Num 1), None)] # map Calls [[(''b'', Some (Num 2), None)]]
             @ [PromptAnswered None])
           @ [Calls [(''a'', Some (Num 1), None)], SaveSettled (Some True)]))) [0, 1, 2]
     = [ResolvedFalse, ResolvedFalse, ResolvedWith 1] \<and>
   nextTransaction (fire_all sample_env (sample_provider ''{}'' True [])
          ((Calls [(''a'', Some (Num 1), None)] # map Calls [[(''b'', Some (Num 2), None)]]
             @ [PromptAnswered None])
           @ [Calls [(''a'', Some (Num 1), None)], SaveSettled (Some True)])) = 2\<close>
    by (simp add: machine_eval sample_eval)
  show ?thesis
    by (rule conjunct2 [OF conjI [OF declined_prompt_fails_the_queue
                                      [OF h, of "''a''" "Some (Num 1)" "Some True"] direct]])
qed


section \<open>An edit that fails\<close>

text \<open>
  Claim C6. Let a run of \<^verbatim>\<open>doSetPreferences\<close> start its loop with the lock free and a queue
  of changes whose promises are unresolved. When the loop is over the queue is empty and
  every change has been taken in order: its promise is resolved with the promise of the run
  if \<^verbatim>\<open>doSetPreference\<close> returned \<^verbatim>\<open>true\<close> for it and with \<^verbatim>\<open>false\<close> otherwise, each edit
  being applied to the document as the edits before it left it. A change whose edit throws
  is resolved with \<^verbatim>\<open>false\<close> at once and has its own error notification, and there are as
  many notifications and \<^verbatim>\<open>console.error\<close> calls as edits that threw. The exception does not
  leave \<^verbatim>\<open>doSetPreference\<close>, which returns \<^verbatim>\<open>false\<close> after the notification.
\<close>

theorem failed_edit_does_not_stop_the_queue:
  assumes "fileEditLock s = newLockQueue" "distinct (map editResolver (editQueue s))"
    "\<forall>e \<in> set (editQueue s). results s (editResolver e) = Unresolved"
  shows "editQueue (run env [DoSetPreferences_handled t] s) = [] \<and>
     errorMessages (run env [DoSetPreferences_handled t] s)
       = errorMessages s @ failures env (queued_writes (editQueue s))
                             (outcomes env (model s) (queued_writes (editQueue s))) \<and>
     length (errorMessages (run env [DoSetPreferences_handled t] s))
       = length (errorMessages s)
           + length (filter (\<lambda>out. out = EditFailed) (outcomes env (model s) (queued_writes (editQueue s)))) \<and>
     consoleErrors (run env [DoSetPreferences_handled t] s)
       = consoleErrors s
           + length (filter (\<lambda>out. out = EditFailed) (outcomes env (model s) (queued_writes (editQueue s)))) \<and>
     (\<forall>i < length (editQueue s).
        results (run env [DoSetPreferences_handled t] s) (editResolver (editQueue s ! i))
          = resolution t (outcomes env (model s) (queued_writes (editQueue s)) ! i) \<and>
        (outcomes env (model s) (queued_writes (editQueue s)) ! i = EditFailed \<longrightarrow>
           results (run env [DoSetPreferences_handled t] s) (editResolver (editQueue s ! i)) = ResolvedFalse \<and>
           failedMessage env (key (editQueue s ! i)) @ '' Please check if it is corrupted.''
             \<in> set (errorMessages (run env [DoSetPreferences_handled t] s)))) \<and>
     (\<forall>m k v. model s = Some m \<and> edit_outcome env k v m = EditFailed \<longrightarrow>
        doSetPreference env k v s = (False, failedToUpdate env k s))"
proof -
  let ?q = "editQueue s"
  let ?ws = "queued_writes ?q"
  let ?outs = "outcomes env (model s) ?ws"
  define s1 where "s1 = run env [DoSetPreferences_handled t] s"
  have s1: "s1 = settle t
       (s\<lparr>editQueue := [],
          model := final_model env (model s) ?ws,
          results := drain_results t ?q ?outs (results s),
          errorMessages := errorMessages s @ failures env ?ws ?outs,
          consoleErrors := consoleErrors s + length (failures env ?ws ?outs)\<rparr>)"
    unfolding s1_def using assms(1) by (rule run_handled_eq)
  have len: "length ?outs = length ?ws" by simp
  have lenq: "length ?ws = length ?q" by (simp add: queued_writes_def)
  have a: "editQueue s1 = []" by (simp add: s1)
  have b: "errorMessages s1 = errorMessages s @ failures env ?ws ?outs" by (simp add: s1)
  have c: "consoleErrors s1 = consoleErrors s + length (failures env ?ws ?outs)" by (simp add: s1)
  have d: "length (failures env ?ws ?outs) = length (filter (\<lambda>out. out = EditFailed) ?outs)"
    using len by (rule length_failures)
  have b': "length (errorMessages s1) = length (errorMessages s) + length (filter (\<lambda>out. out = EditFailed) ?outs)"
    by (simp add: b d)
  have c': "consoleErrors s1 = consoleErrors s + length (filter (\<lambda>out. out = EditFailed) ?outs)"
    by (simp add: c d)
  have e: "results s1 (editResolver (?q ! i)) = resolution t (?outs ! i)" if "i < length ?q" for i
  proof -
    have "drain_results t ?q ?outs (results s) (editResolver (?q ! i)) = resolution t (?outs ! i)"
      using assms(2,3) _ that
    proof (rule drain_results_nth)
      show "length ?outs = length ?q" using len lenq by simp
    qed
    then show ?thesis by (simp add: s1)
  qed
  have f: "failedMessage env (key (?q ! i)) @ '' Please check if it is corrupted.'' \<in> set (errorMessages s1)"
    if "i < length ?q" "?outs ! i = EditFailed" for i
  proof -
    have k: "fst (?ws ! i) = key (?q ! i)" using that(1) by (simp add: queued_writes_def)
    have "i < length ?ws" using that(1) lenq by simp
    with len have "failedMessage env (fst (?ws ! i)) @ '' Please check if it is corrupted.''
                   \<in> set (failures env ?ws ?outs)"
      using that(2) by (rule failures_member)
    then show ?thesis by (simp add: b k)
  qed
  have e': "results s1 (editResolver (?q ! i)) = ResolvedFalse"
    if "i < length ?q" "?outs ! i = EditFailed" for i
    using e [OF that(1)] that(2) by (simp add: resolution_def)
  have g: "\<forall>m k v. model s = Some m \<and> edit_outcome env k v m = EditFailed \<longrightarrow>
        doSetPreference env k v s = (False, failedToUpdate env k s)"
    by (simp add: doSetPreference_eq)
  have h: "\<forall>i < length ?q.
        results s1 (editResolver (?q ! i)) = resolution t (?outs ! i) \<and>
        (?outs ! i = EditFailed \<longrightarrow>
           results s1 (editResolver (?q ! i)) = ResolvedFalse \<and>
           failedMessage env (key (?q ! i)) @ '' Please check if it is corrupted.'' \<in> set (errorMessages s1))"
    using e e' f by blast
  show ?thesis
    using a b b' c' h g unfolding s1_def by (intro conjI)
qed

text \<open>
  Three queued changes, the second of which makes the differ throw: the first and the third
  are resolved with the promise of the run and are both in the document, the second is
  resolved with \<^verbatim>\<open>false\<close>, and one error is shown and logged.
\<close>

theorem failed_edit_does_not_stop_the_queue_witness:
  \<open>map (results (run sample_env [DoSetPreferences_handled 0] sample_queued)) [0, 1, 2]
     = [ResolvedWith 0, ResolvedFalse, ResolvedWith 0] \<and>
   length (errorMessages (run sample_env [DoSetPreferences_handled 0] sample_queued)) = 1 \<and>
   consoleErrors (run sample_env [DoSetPreferences_handled 0] sample_queued) = 1 \<and>
   editQueue (run sample_env [DoSetPreferences_handled 0] sample_queued) = [] \<and>
   map_option getText (model (run sample_env [DoSetPreferences_handled 0] sample_queued))
     = Some ''{"a": 1, "b": 2}''\<close>
proof -
  have h: "fileEditLock sample_queued = newLockQueue"
    "distinct (map editResolver (editQueue sample_queued))"
    "\<forall>e \<in> set (editQueue sample_queued). results sample_queued (editResolver e) = Unresolved"
    by (simp_all add: sample_queued_def sample_provider_def)
  have direct: \<open>map (results (run sample_env [DoSetPreferences_handled 0] sample_queued)) [0, 1, 2]
       = [ResolvedWith 0, ResolvedFalse, ResolvedWith 0] \<and>
     length (errorMessages (run sample_env [DoSetPreferences_handled 0] sample_queued)) = 1 \<and>
     consoleErrors (run sample_env [DoSetPreferences_handled 0] sample_queued) = 1 \<and>
     editQueue (run sample_env [DoSetPreferences_handled 0] sample_queued) = [] \<and>
     map_option getText (model (run sample_env [DoSetPreferences_handled 0] sample_queued))
       = Some ''{"a": 1, "b": 2}''\<close>
    by (simp add: sample_queued_def machine_eval sample_eval)
  show ?thesis
    by (rule conjunct2 [OF conjI [OF failed_edit_does_not_stop_the_queue [OF h, of sample_env 0] direct]])
qed


section \<open>Reading the preferences of a dirty document\<close>

text \<open>
  Claim C7. \<^verbatim>\<open>readPreferences\<close> is what the provider runs on every change of the content,
  the dirty flag or the validity of the document. While the document is dirty it changes
  nothing: the provider, and with it the preferences \<^verbatim>\<open>getPreferences\<close> returns, stay as
  they are. Once the document is clean, which is how a save leaves it, reading the
  preferences replaces the snapshot by the parsed text of a valid document and by the empty
  object for an invalid one.
\<close>

theorem readPreferences_skips_dirty_document:
  "(model s = Some m \<and> dirty m \<longrightarrow>
      readPreferences env s = s \<and>
      getPreferences env resourceUri (readPreferences env s) = getPreferences env resourceUri s \<and>
      preferences (modelSaved env s) = (if valid m then getParsedContent env (getText m) else [])) \<and>
   (model s = Some m \<and> \<not> dirty m \<longrightarrow>
      preferences (readPreferences env s) = (if valid m then getParsedContent env (getText m) else []))"
proof -
  have clean: "preferences (readPreferences env s') = (if valid m' then getParsedContent env (getText m') else [])"
    if "model s' = Some m'" "\<not> dirty m'" for s' :: "'a Provider" and m'
    using that
    by (simp add: readPreferences_def handlePreferenceChanges_def emitPreferencesChangedEvent_def Let_def)
  have saved: "preferences (modelSaved env s) = (if valid m then getParsedContent env (getText m) else [])"
    if "model s = Some m" "dirty m"
    using that clean [of "s\<lparr>model := Some (m\<lparr>dirty := False\<rparr>), disk := getText m\<rparr>" "m\<lparr>dirty := False\<rparr>"]
    by (simp add: modelSaved_def Let_def)
  show ?thesis
    using clean [of s m] saved readPreferences_dirty [of s m env] by auto
qed

text \<open>
  A dirty document whose text gives \<open>a\<close> the value 3 while the snapshot has 1: reading the
  preferences changes nothing; after the save, and on the clean document, the snapshot has 3.
\<close>

theorem readPreferences_skips_dirty_document_witness:
  \<open>readPreferences sample_env (sample_provider ''{"a": 3}'' True [(''a'', Num 1)])
     = sample_provider ''{"a": 3}'' True [(''a'', Num 1)] \<and>
   getPreferences sample_env None (readPreferences sample_env (sample_provider ''{"a": 3}'' True [(''a'', Num 1)]))
     = [(''a'', Num 1)] \<and>
   preferences (modelSaved sample_env (sample_provider ''{"a": 3}'' True [(''a'', Num 1)])) = [(''a'', Num 3)] \<and>
   preferences (readPreferences sample_env (sample_provider ''{"a": 3}'' False [(''a'', Num 1)])) = [(''a'', Num 3)]\<close>
  using readPreferences_skips_dirty_document
          [of \<open>sample_provider ''{"a": 3}'' True [(''a'', Num 1)]\<close>
              \<open>\<lparr>getText = ''{"a": 3}'', dirty = True, valid = True\<rparr>\<close> sample_env None]
        readPreferences_skips_dirty_document
          [of \<open>sample_provider ''{"a": 3}'' False [(''a'', Num 1)]\<close>
              \<open>\<lparr>getText = ''{"a": 3}'', dirty = False, valid = True\<rparr>\<close> sample_env None]
  by (simp add: sample_provider_def sample_env_def getPreferences_def provider_valid_def contains_def
      getParsedContent_def parse_def trim_def is_space_def sample_parse_def)


section \<open>Unsetting the only key of a document\<close>





section \<open>Disposal\<close>

lemma removals_member:
  "p \<in> set prefs \<Longrightarrow>
   \<exists>v. obj_get prefs (fst p) = Some v \<and>
       \<lparr>preferenceName = fst p, newValue = None, oldValue = Some v,
        scope = getScope env, domain = getDomain env\<rparr> \<in> set (removals env prefs)"
proof -
  assume p: "p \<in> set prefs"
  then have "fst p \<in> fst ` set prefs" by simp
  then obtain v where v: "map_of prefs (fst p) = Some v"
    by (metis domD dom_map_of_conv_image_fst)
  with p show ?thesis
    by (force simp: removals_def obj_get_def)
qed

text \<open>
  Claim C9. \<^verbatim>\<open>reset\<close>, which the provider runs when it is disposed, leaves an empty
  snapshot, and for a snapshot that was not empty it emits one list of changes that holds,
  for every key of the snapshot, the record of its removal: the old value is the value the
  key had, the new value is \<^verbatim>\<open>undefined\<close>.
\<close>

theorem reset_clears_and_reports_removals:
  "preferences (reset env s) = [] \<and>
   (\<forall>p \<in> set (preferences s).
      emitted (reset env s) = emitted s @ [removals env (preferences s)] \<and>
      (\<exists>v. obj_get (preferences s) (fst p) = Some v \<and>
           \<lparr>preferenceName = fst p, newValue = None, oldValue = Some v,
            scope = getScope env, domain = getDomain env\<rparr>
             \<in> set (removals env (preferences s))))"
proof -
  have a: "preferences (reset env s) = []"
    by (simp add: reset_def emitPreferencesChangedEvent_def Let_def)
  have b: "emitted (reset env s) = emitted s @ [removals env (preferences s)]"
    if "p \<in> set (preferences s)" for p
  proof -
    from removals_member [OF that, of env] have "removals env (preferences s) \<noteq> []" by auto
    then show ?thesis
      by (simp add: reset_def emitPreferencesChangedEvent_def Let_def)
  qed
  show ?thesis using a b removals_member [of _ "preferences s" env] by blast
qed

text \<open>A snapshot of two preferences: both removals are emitted, in one event.\<close>

theorem reset_clears_and_reports_removals_witness:
  "preferences (reset sample_env (sample_provider ''{}'' False [(''a'', Num 1), (''b'', Num 2)])) = [] \<and>
   emitted (reset sample_env (sample_provider ''{}'' False [(''a'', Num 1), (''b'', Num 2)])) =
     [[\<lparr>preferenceName = ''a'', newValue = None, oldValue = Some (Num 1), scope = Folder, domain = None\<rparr>,
       \<lparr>preferenceName = ''b'', newValue = None, oldValue = Some (Num 2), scope = Folder, domain = None\<rparr>]]"
  using reset_clears_and_reports_removals [of sample_env "sample_provider ''{}'' False [(''a'', Num 1), (''b'', Num 2)]"]
  by (simp add: sample_provider_def sample_env_def removals_def obj_get_def)


section \<open>The lock is busy as long as somebody waits for it\<close>

text \<open>
  Claim C10. After every sequence of calls of \<^verbatim>\<open>acquire\<close>, \<^verbatim>\<open>release\<close> and \<^verbatim>\<open>waitUntilFree\<close>
  on a new lock queue, the flag \<^verbatim>\<open>busy\<close> is false only when the wait list is empty. A
  release that finds a waiter resolves the deferred at the head of the list, calls no
  listener of \<^verbatim>\<open>onFree\<close>, and leaves the lock busy with the rest of the list. The lock is
  granted in the order of the calls of \<^verbatim>\<open>acquire\<close>: the callers granted so far, followed by
  those still waiting, are all the callers in the order of their calls.
\<close>

theorem LockQueue_never_free_with_waiters:
  "(\<not> busy (lock_after cs) \<longrightarrow> queue (lock_after cs) = []) \<and>
   (queue (lock_after cs) \<noteq> [] \<longrightarrow>
      fst (release (lock_after cs)) = Some (hd (queue (lock_after cs))) \<and>
      fst (snd (release (lock_after cs))) = [] \<and>
      busy (snd (snd (release (lock_after cs)))) \<and>
      queue (snd (snd (release (lock_after cs)))) = tl (queue (lock_after cs))) \<and>
   granted newLockQueue cs @ queue (lock_after cs) = acquirers cs"
proof -
  have inv: "lock_inv (lock_after cs)" by (rule lock_after_inv)
  have fifo: "granted newLockQueue cs @ queue (lock_after cs) = acquirers cs"
    using granted_fifo [of newLockQueue cs]
    by (simp add: lock_after_def lock_inv_def newLockQueue_def)
  show ?thesis
    using inv fifo by (auto simp: lock_inv_def release_def split: list.splits)
qed

text \<open>
  Three callers and one release: the second caller holds the lock, the third waits, and the
  lock is busy before and after the next release.
\<close>

theorem LockQueue_never_free_with_waiters_witness:
  "busy (lock_after [Acquire (1::nat), Acquire 2, Acquire 3, Release :: (nat, nat) lock_call]) \<and>
   queue (lock_after [Acquire (1::nat), Acquire 2, Acquire 3, Release :: (nat, nat) lock_call]) = [3] \<and>
   fst (release (lock_after [Acquire (1::nat), Acquire 2, Acquire 3, Release :: (nat, nat) lock_call])) = Some 3 \<and>
   busy (snd (snd (release (lock_after [Acquire (1::nat), Acquire 2, Acquire 3, Release :: (nat, nat) lock_call])))) \<and>
   granted newLockQueue [Acquire (1::nat), Acquire 2, Acquire 3, Release :: (nat, nat) lock_call] = [1, 2]"
  using LockQueue_never_free_with_waiters [of "[Acquire (1::nat), Acquire 2, Acquire 3, Release :: (nat, nat) lock_call]"]
  by (simp add: lock_after_def newLockQueue_def acquire_def release_def Let_def)

end
